theory Spec2Isabelle
  imports Main "HOL-Library.Word" "HOL-Library.Monad_Syntax" "HOL-Library.Multiset"
begin

unbundle bit_operations_syntax

section \<open>Memory accesses\<close>

text \<open>
  The C++ code indexes raw arrays and vectors without any bounds check.  A read or a
  write outside the array is undefined behaviour; the model makes it the value
  \<open>None\<close>, so every function that touches an array returns an option.
\<close>

definition load :: "'a list \<Rightarrow> nat \<Rightarrow> 'a option" where
  "load xs i = (if i < length xs then Some (xs ! i) else None)"

definition store :: "'a list \<Rightarrow> nat \<Rightarrow> 'a \<Rightarrow> 'a list option" where
  "store xs i v = (if i < length xs then Some (xs[i := v]) else None)"

section \<open>Exceptions and new-expressions\<close>

text \<open>
  The code allocates its arrays with plain new-expressions, \<open>new EntityRecord[capacity]\<close>
  and \<open>new T[newSize]\<close>, and the sources replace no allocation function.  Such an
  expression yields an array of default-initialised elements or, when the allocation
  fails, raises \<open>std::bad_alloc\<close>; it does not yield a null pointer.  No function of the
  library catches an exception: an exception leaves the function that raises it and
  every caller, and the static state keeps what was assigned before it was raised.

  The outcome of a call is the value returned or the exception raised.  The result of
  a new-expression is a pointer, \<open>None\<close> for the null pointer, so that the tests
  \<open>if (!newArray)\<close> of the callers can be written down; \<open>allocated\<close> says whether the
  allocation succeeds.  The allocations of the standard containers (\<open>managers\<close>,
  \<open>freeList\<close>, \<open>matchedIndices\<close>, \<open>OperationList\<close>) and of the constructor of a block are
  taken to succeed.
\<close>

datatype exception = bad_alloc

datatype 'a outcome = Returns 'a | Throws exception

definition new_array :: "bool \<Rightarrow> nat \<Rightarrow> 'a \<Rightarrow> 'a list option outcome" where
  "new_array allocated n x =
     (if allocated then Returns (Some (replicate n x)) else Throws bad_alloc)"

section \<open>EntityRecord.hpp: the slot table\<close>

text \<open>\<open>using Index = uint16_t\<close> and \<open>InvalidIndex = ~(Index(0))\<close>.\<close>

type_synonym Index = "16 word"

definition InvalidIndex :: Index where
  "InvalidIndex = NOT 0"

text \<open>
  One slot: \<open>Index archetype = InvalidIndex; Index row = InvalidIndex; Index version = 0\<close>.
\<close>

record EntityRecord =
  archetype :: Index
  row :: Index
  version :: Index

definition defaultRecord :: EntityRecord where
  "defaultRecord = \<lparr>archetype = InvalidIndex, row = InvalidIndex, version = 0\<rparr>"

text \<open>
  \<open>using BinaryId = size_t\<close>: a signature is a word whose width \<open>'w\<close> is the width of
  \<open>size_t\<close> on the target; \<open>MaxComponentTypes = sizeof(BinaryId) * CHAR_BIT\<close> is
  \<open>LENGTH('w)\<close>.  The other \<open>size_t\<close> values of the code are counters and array sizes
  bounded by the memory of the machine; they are natural numbers here.

  An archetype block (\<open>class ArchetypeManager\<close>).  A component column holds values of
  one universe \<open>'v\<close>; a null array pointer is the empty list.
\<close>

record (overloaded) ('w, 'v) ArchetypeManager =
  id_arch :: "'w word"
  recordIndices :: "Index list"
  componentArrays :: "'v list list"
  internalIndex :: "8 word list"
  capacity_arch :: Index
  size_arch :: Index

text \<open>
  The static members of \<open>EntityRecord\<close> (\<open>capacity\<close>, \<open>last\<close>, \<open>freeList\<close> with its top
  at the head, \<open>records\<close>), the function-local static \<open>invalidRecord\<close> of \<open>Reserve\<close>, and
  the static vector \<open>ArchetypeManager::managers\<close>.
\<close>

record (overloaded) ('w, 'v) World =
  capacity_rec :: nat
  last_rec :: nat
  freeList :: "nat list"
  records :: "EntityRecord list"
  invalidRecord :: EntityRecord
  managers :: "('w, 'v) ArchetypeManager list"

definition emptyWorld :: "('w::len, 'v) World" where
  "emptyWorld = \<lparr>capacity_rec = 0, last_rec = 0, freeList = [], records = [],
     invalidRecord = defaultRecord, managers = []\<rparr>"

text \<open>
  A reference \<open>EntityRecord&\<close> is either an element of \<open>records\<close> or the static
  \<open>invalidRecord\<close>.
\<close>

datatype RecordRef = Rec nat | InvalidRec

text \<open>
  \<open>GetIndex\<close> is \<open>static_cast<Index>(this - records)\<close>; the pointer difference is
  undefined for the static \<open>invalidRecord\<close>, which is no element of \<open>records\<close>.
\<close>

fun GetIndex :: "RecordRef \<Rightarrow> Index option" where
  "GetIndex (Rec i) = Some (of_nat i)"
| "GetIndex InvalidRec = None"

text \<open>
  The copy loop of \<open>Reserve\<close>, \<open>for (Index i = 0; i < originalCapacity; ++i)\<close>.  Its
  counter is 16 bits wide and the bound is a \<open>size_t\<close>, so the loop need not terminate.
\<close>

partial_function (option) moveRecords ::
  "Index \<Rightarrow> nat \<Rightarrow> EntityRecord list \<Rightarrow> EntityRecord list \<Rightarrow> EntityRecord list option" where
  "moveRecords i originalCapacity recs newArray =
     (if unat i < originalCapacity
      then do {
        r \<leftarrow> load recs (unat i);
        newArray' \<leftarrow> store newArray (unat i) r;
        moveRecords (i + 1) originalCapacity recs newArray' }
      else Some newArray)"

declare moveRecords.simps [code]

text \<open>
  \<open>EntityRecord::Reserve\<close>: the result is the outcome of the call and the static state
  afterwards.  \<open>capacity\<close> is assigned before \<open>new EntityRecord[capacity]\<close> is evaluated,
  so an exception leaves the grown value in it; the branch \<open>if (!newArray)\<close> restores
  \<open>capacity\<close> and returns the static \<open>invalidRecord\<close>.
\<close>

definition Reserve ::
  "bool \<Rightarrow> ('w::len, 'v) World \<Rightarrow> (RecordRef outcome \<times> ('w, 'v) World) option" where
  "Reserve allocated w =
     (case freeList w of
        index # rest \<Rightarrow> do {
          _ \<leftarrow> load (records w) index;
          Some (Returns (Rec index), w\<lparr>freeList := rest\<rparr>) }
      | [] \<Rightarrow>
        if last_rec w \<ge> capacity_rec w then
          (let originalCapacity = capacity_rec w;
               capacity = (if capacity_rec w = 0 then 2
                           else capacity_rec w * 2 - capacity_rec w div 2)
           in case new_array allocated capacity defaultRecord of
                Throws e \<Rightarrow> Some (Throws e, w\<lparr>capacity_rec := capacity\<rparr>)
              | Returns None \<Rightarrow>
                  Some (Returns InvalidRec,
                        w\<lparr>invalidRecord := \<lparr>archetype = InvalidIndex, row = InvalidIndex,
                                             version = InvalidIndex\<rparr>\<rparr>)
              | Returns (Some newArray) \<Rightarrow> do {
                  newArray' \<leftarrow> moveRecords 0 originalCapacity (records w) newArray;
                  _ \<leftarrow> load newArray' (last_rec w);
                  Some (Returns (Rec (last_rec w)),
                        w\<lparr>capacity_rec := capacity, records := newArray',
                          last_rec := last_rec w + 1\<rparr>) })
        else do {
          _ \<leftarrow> load (records w) (last_rec w);
          Some (Returns (Rec (last_rec w)), w\<lparr>last_rec := last_rec w + 1\<rparr>) })"

text \<open>
  The loop of \<open>Release\<close>:
  \<open>while (last > 0 && !freeList.empty() && freeList.top() == last - 1) { freeList.pop(); last--; }\<close>
\<close>

fun popTrailing :: "nat \<Rightarrow> nat list \<Rightarrow> nat \<times> nat list" where
  "popTrailing l [] = (l, [])"
| "popTrailing l (t # fl) =
     (if l > 0 \<and> t = l - 1 then popTrailing (l - 1) fl else (l, t # fl))"

text \<open>
  \<open>EntityRecord::Release\<close>, called on \<open>records[self]\<close>.  In \<open>index == last - 1\<close> the
  right-hand side is a \<open>size_t\<close>: for \<open>last = 0\<close> it wraps to the largest \<open>size_t\<close>, which
  no 16-bit \<open>index\<close> equals.
\<close>

definition Release :: "nat \<Rightarrow> ('w::len, 'v) World \<Rightarrow> ('w, 'v) World option" where
  "Release self w = do {
     r \<leftarrow> load (records w) self;
     let recs = (records w)[self := r\<lparr>archetype := InvalidIndex, row := InvalidIndex,
                                       version := version r + 1\<rparr>];
     index \<leftarrow> GetIndex (Rec self);
     if last_rec w \<noteq> 0 \<and> unat index = last_rec w - 1
     then (let (l, fl) = popTrailing (last_rec w - 1) (freeList w)
           in Some (w\<lparr>records := recs, last_rec := l, freeList := fl\<rparr>))
     else Some (w\<lparr>records := recs, freeList := unat index # freeList w\<rparr>) }"

section \<open>Component.hpp: type-erased column operations\<close>

text \<open>
  The component types are supplied by the caller.  What the column operations need of a
  type \<open>T\<close> is the element that \<open>new T[n]\<close> creates and the state in which \<open>MoveElement<T>\<close>
  leaves its source (\<open>T{}\<close> for a default-constructible type, the moved-from value
  otherwise).  \<open>OperationList\<close> maps a component id to them; every id that occurs in a
  signature has been registered by the initialiser of \<open>IdBinary\<close>.
\<close>

record 'v ComponentType =
  newElement :: 'v
  movedFrom :: "'v \<Rightarrow> 'v"

type_synonym 'v OperationList = "nat \<Rightarrow> 'v ComponentType"

text \<open>
  \<open>Component::MoveElement<T>(dstArray, dstPos, srcArray, srcPos)\<close> on the columns of one
  block, addressed by their position in \<open>componentArrays\<close> (the two may be the same
  column).
\<close>

definition MoveElement ::
  "'v ComponentType \<Rightarrow> 'v list list \<Rightarrow> nat \<Rightarrow> nat \<Rightarrow> nat \<Rightarrow> nat \<Rightarrow> 'v list list option" where
  "MoveElement T arrays dstArray dstPos srcArray srcPos = do {
     src \<leftarrow> load arrays srcArray;
     x \<leftarrow> load src srcPos;
     dst \<leftarrow> load arrays dstArray;
     dst' \<leftarrow> store dst dstPos x;
     arrays' \<leftarrow> store arrays dstArray dst';
     src' \<leftarrow> load arrays' srcArray;
     src'' \<leftarrow> store src' srcPos (movedFrom T x);
     store arrays' srcArray src'' }"

text \<open>The loop \<open>for (size_t i = 0; i < moveCount; ++i) newArray[i] = std::move(originalArray[i])\<close>.\<close>

function moveElements :: "nat \<Rightarrow> nat \<Rightarrow> 'v list \<Rightarrow> 'v list \<Rightarrow> 'v list option" where
  "moveElements i moveCount originalArray newArray =
     (if i < moveCount
      then do {
        x \<leftarrow> load originalArray i;
        newArray' \<leftarrow> store newArray i x;
        moveElements (i + 1) moveCount originalArray newArray' }
      else Some newArray)"
  by pat_completeness auto
termination
  by (relation "measure (\<lambda>(i, moveCount, _, _). moveCount - i)") auto

declare moveElements.simps [simp del]

text \<open>
  \<open>Component::ResizeArray<T>(ptrToArray, newSize, moveCount)\<close>: the result is the outcome
  of the call, which is the boolean returned or the exception of \<open>new T[newSize]\<close>, and
  the array that \<open>*ptrToArray\<close> points to afterwards.
\<close>

definition ResizeArray ::
  "'v ComponentType \<Rightarrow> bool \<Rightarrow> 'v list \<Rightarrow> nat \<Rightarrow> nat
     \<Rightarrow> (bool outcome \<times> 'v list) option" where
  "ResizeArray T allocated ptrToArray newSize moveCount =
     (case new_array allocated newSize (newElement T) of
        Throws e \<Rightarrow> Some (Throws e, ptrToArray)
      | Returns None \<Rightarrow> Some (Returns False, ptrToArray)
      | Returns (Some newArray) \<Rightarrow> do {
          newArray' \<leftarrow> moveElements 0 moveCount ptrToArray newArray;
          Some (Returns True, newArray') })"

section \<open>Archetype.hpp: archetype blocks\<close>

text \<open>\<open>using InternalIndex = uint8_t\<close> and \<open>Unused = ~(InternalIndex(0))\<close>.\<close>

definition Unused :: "8 word" where
  "Unused = NOT 0"

text \<open>
  \<open>EachComponent(id, lambda)\<close>:
  \<open>do { if (1 & id) lambda(componentId); componentId++; } while (id >>= 1);\<close>
  The lambda is a state transformer that may run into undefined behaviour.
\<close>

function EachComponent ::
  "'w::len word \<Rightarrow> nat \<Rightarrow> (nat \<Rightarrow> 's \<Rightarrow> 's option) \<Rightarrow> 's \<Rightarrow> 's option" where
  "EachComponent binaryId componentId lambda s = do {
     s' \<leftarrow> (if 1 AND binaryId \<noteq> 0 then lambda componentId s else Some s);
     if drop_bit 1 binaryId \<noteq> 0
     then EachComponent (drop_bit 1 binaryId) (componentId + 1) lambda s'
     else Some s' }"
  by pat_completeness auto
termination
proof (relation "measure (\<lambda>(binaryId, _, _, _). unat binaryId)", goal_cases)
  case 1
  show ?case by simp
next
  case (2 binaryId componentId lambda s s')
  have eq: "unat (drop_bit 1 binaryId) = unat binaryId div 2"
    by (subst unat_drop_bit_eq) (simp add: drop_bit_eq_div)
  from \<open>drop_bit 1 binaryId \<noteq> 0\<close> have "unat (drop_bit 1 binaryId) \<noteq> 0"
    unfolding unat_eq_0 .
  then have "unat (drop_bit 1 binaryId) < unat binaryId"
    unfolding eq by simp
  then show ?case
    by (simp only: in_measure prod.case)
qed

declare EachComponent.simps [simp del]

text \<open>\<open>bool Contains(BinaryId expected) { return (id & expected) == expected; }\<close>\<close>

definition Contains :: "('w::len, 'v) ArchetypeManager \<Rightarrow> 'w word \<Rightarrow> bool" where
  "Contains m expected \<longleftrightarrow> (id_arch m AND expected) = expected"

text \<open>
  The constructor \<open>ArchetypeManager(BinaryId newId)\<close>.  The default member initialiser
  \<open>InternalIndex internalIndex[MaxComponentTypes] = { Unused }\<close> is an aggregate
  initialisation with one initialiser: element 0 becomes \<open>Unused\<close> and the remaining
  elements are zero-initialised.  \<open>new void*[localComponentCount]()\<close> is an array of
  null pointers.
\<close>

definition ArchetypeManager_ctor :: "'w::len word \<Rightarrow> ('w, 'v) ArchetypeManager option" where
  "ArchetypeManager_ctor newId = do {
     (ii, localComponentCount) \<leftarrow>
       EachComponent newId 0
         (\<lambda>componentId (ii, localComponentCount :: 8 word). do {
            ii' \<leftarrow> store ii componentId localComponentCount;
            Some (ii', localComponentCount + 1) })
         (Unused # replicate (LENGTH('w) - 1) 0, 0);
     Some \<lparr>id_arch = newId, recordIndices = [],
           componentArrays = replicate (unat localComponentCount) [],
           internalIndex = ii, capacity_arch = 0, size_arch = 0\<rparr> }"

text \<open>
  \<open>ArchetypeManager::Find\<close>: a linear scan for the signature, and a \<open>push_back\<close> of a new
  block when no block has it.  (The move constructor that \<open>push_back\<close> uses copies every
  field, \<open>internalIndex\<close> element by element.)
\<close>

fun Find_scan :: "'w::len word \<Rightarrow> ('w, 'v) ArchetypeManager list \<Rightarrow> nat \<Rightarrow> nat option" where
  "Find_scan binaryId [] i = None"
| "Find_scan binaryId (m # ms) i =
     (if id_arch m = binaryId then Some i else Find_scan binaryId ms (i + 1))"

definition Find :: "'w::len word \<Rightarrow> ('w, 'v) World \<Rightarrow> (nat \<times> ('w, 'v) World) option" where
  "Find binaryId w =
     (case Find_scan binaryId (managers w) 0 of
        Some i \<Rightarrow> Some (i, w)
      | None \<Rightarrow> do {
          m \<leftarrow> ArchetypeManager_ctor binaryId;
          Some (length (managers w), w\<lparr>managers := managers w @ [m]\<rparr>) })"

text \<open>
  \<open>GetComponent<T>(row)\<close> of the block at position \<open>self\<close> of \<open>managers\<close>, for the
  component id \<open>T\<close>.  The pointer \<open>&array[row]\<close> is the block, the column and the row.
\<close>

datatype ComponentPtr = nullptr | Element nat nat nat

definition GetComponent ::
  "nat \<Rightarrow> ('w::len, 'v) ArchetypeManager \<Rightarrow> nat \<Rightarrow> Index \<Rightarrow> ComponentPtr option" where
  "GetComponent self m T rw = do {
     index \<leftarrow> load (internalIndex m) T;
     if index = Unused then Some nullptr
     else do {
       _ \<leftarrow> load (componentArrays m) (unat index);
       Some (Element self (unat index) (unat rw)) } }"

text \<open>What the caller's lambda does with a pointer it was given: read it, or assign to it.\<close>

definition deref :: "('w::len, 'v) World \<Rightarrow> ComponentPtr \<Rightarrow> 'v option" where
  "deref w p =
     (case p of
        nullptr \<Rightarrow> None
      | Element a c r \<Rightarrow> do {
          m \<leftarrow> load (managers w) a;
          col \<leftarrow> load (componentArrays m) c;
          load col r })"

definition assign :: "ComponentPtr \<Rightarrow> 'v \<Rightarrow> ('w::len, 'v) World \<Rightarrow> ('w, 'v) World option" where
  "assign p v w =
     (case p of
        nullptr \<Rightarrow> None
      | Element a c r \<Rightarrow> do {
          m \<leftarrow> load (managers w) a;
          col \<leftarrow> load (componentArrays m) c;
          col' \<leftarrow> store col r v;
          cols \<leftarrow> store (componentArrays m) c col';
          ms \<leftarrow> store (managers w) a (m\<lparr>componentArrays := cols\<rparr>);
          Some (w\<lparr>managers := ms\<rparr>) })"

text \<open>
  The allocations of \<open>ReserveRecord\<close>: whether \<open>new EntityRecord[]\<close> in \<open>Reserve\<close>,
  \<open>realloc\<close> of \<open>recordIndices\<close> and \<open>new T[]\<close> in \<open>ResizeArray\<close> (per component id)
  succeed, and the content of the memory that \<open>realloc\<close> adds, which is indeterminate.
  A \<open>realloc\<close> that fails returns a null pointer, the empty array.
\<close>

record Allocator =
  newRecords :: bool
  reallocIndices :: bool
  newColumn :: "nat \<Rightarrow> bool"
  freshIndex :: Index

definition realloc_indices :: "Allocator \<Rightarrow> Index list \<Rightarrow> nat \<Rightarrow> Index list" where
  "realloc_indices alloc xs n =
     (if reallocIndices alloc then take n xs @ replicate (n - length xs) (freshIndex alloc)
      else [])"

text \<open>
  \<open>capacity = (capacity == 0) ? 2 : (capacity * 2) - (capacity / 2)\<close> on the 16-bit
  \<open>capacity\<close> of a block: the right-hand side is computed in \<open>int\<close> and the assignment
  truncates it to \<open>Index\<close>.
\<close>

definition growCapacity :: "Index \<Rightarrow> Index" where
  "growCapacity c = (if c = 0 then 2 else of_nat (unat c * 2 - unat c div 2))"

text \<open>Assignment to the fields \<open>archetype\<close> and \<open>row\<close> of a referenced record.\<close>

fun linkRecord :: "RecordRef \<Rightarrow> Index \<Rightarrow> Index \<Rightarrow> ('w::len, 'v) World \<Rightarrow> ('w, 'v) World option" where
  "linkRecord (Rec i) a r w = do {
     e \<leftarrow> load (records w) i;
     Some (w\<lparr>records := (records w)[i := e\<lparr>archetype := a, row := r\<rparr>]\<rparr>) }"
| "linkRecord InvalidRec a r w =
     Some (w\<lparr>invalidRecord := (invalidRecord w)\<lparr>archetype := a, row := r\<rparr>\<rparr>)"

text \<open>
  The lambda that \<open>ReserveRecord\<close> passes to \<open>EachComponent\<close>, on the block and the
  exception pending, if any: an exception of \<open>ResizeArray\<close> leaves the lambda and the
  loop of \<open>EachComponent\<close>, so the calls for the remaining components do not take place.
  The boolean that \<open>ResizeArray\<close> returns is ignored by the source, and so it is here.
\<close>

definition resizeColumn ::
  "'v OperationList \<Rightarrow> Allocator \<Rightarrow> nat \<Rightarrow> unit outcome \<times> ('w::len, 'v) ArchetypeManager
     \<Rightarrow> (unit outcome \<times> ('w, 'v) ArchetypeManager) option" where
  "resizeColumn ops alloc componentId s =
     (case s of
        (Throws e, m) \<Rightarrow> Some (Throws e, m)
      | (Returns _, m) \<Rightarrow> do {
          index \<leftarrow> load (internalIndex m) componentId;
          arr \<leftarrow> load (componentArrays m) (unat index);
          (r, arr') \<leftarrow> ResizeArray (ops componentId) (newColumn alloc componentId) arr
                         (unat (capacity_arch m)) (unat (size_arch m));
          arrs \<leftarrow> store (componentArrays m) (unat index) arr';
          Some (case r of Throws e \<Rightarrow> Throws e | Returns _ \<Rightarrow> Returns (),
                m\<lparr>componentArrays := arrs\<rparr>) })"

text \<open>
  \<open>ArchetypeManager::ReserveRecord\<close> of the block at position \<open>self\<close>: the outcome of the
  call and the static state afterwards.  \<open>realloc\<close> is the C function, which returns a
  null pointer when it fails.
\<close>

definition ReserveRecord ::
  "'v OperationList \<Rightarrow> Allocator \<Rightarrow> nat \<Rightarrow> ('w::len, 'v) World
     \<Rightarrow> (RecordRef outcome \<times> ('w, 'v) World) option" where
  "ReserveRecord ops alloc self w = do {
     (reserved, w1) \<leftarrow> Reserve (newRecords alloc) w;
     case reserved of
       Throws e \<Rightarrow> Some (Throws e, w1)
     | Returns entityRecord \<Rightarrow> do {
         m \<leftarrow> load (managers w1) self;
         (resized, m1) \<leftarrow>
           (if size_arch m \<ge> capacity_arch m
            then EachComponent (id_arch m) 0 (resizeColumn ops alloc)
                   (Returns (),
                    m\<lparr>capacity_arch := growCapacity (capacity_arch m),
                      recordIndices := realloc_indices alloc (recordIndices m)
                                         (unat (growCapacity (capacity_arch m)))\<rparr>)
            else Some (Returns (), m));
         case resized of
           Throws e \<Rightarrow> Some (Throws e, w1\<lparr>managers := (managers w1)[self := m1]\<rparr>)
         | Returns _ \<Rightarrow> do {
             index \<leftarrow> GetIndex entityRecord;
             ri \<leftarrow> store (recordIndices m1) (unat (size_arch m1)) index;
             w2 \<leftarrow> linkRecord entityRecord (of_nat self) (size_arch m1) w1;
             Some (Returns entityRecord,
                   w2\<lparr>managers := (managers w2)[self := m1\<lparr>recordIndices := ri,
                                                             size_arch := size_arch m1 + 1\<rparr>]\<rparr>) } } }"

text \<open>
  \<open>ArchetypeManager::RemoveRow\<close> of the block at position \<open>self\<close>.  The lambda moves the
  last row of one column into \<open>row\<close>.
\<close>

definition moveLastRow ::
  "'v OperationList \<Rightarrow> ('w::len, 'v) ArchetypeManager \<Rightarrow> Index \<Rightarrow> Index \<Rightarrow> nat
     \<Rightarrow> 'v list list \<Rightarrow> 'v list list option" where
  "moveLastRow ops m rw lastRow componentId arrays = do {
     index \<leftarrow> load (internalIndex m) componentId;
     MoveElement (ops componentId) arrays (unat index) (unat rw) (unat index) (unat lastRow) }"

definition RemoveRow ::
  "'v OperationList \<Rightarrow> nat \<Rightarrow> Index \<Rightarrow> ('w::len, 'v) World \<Rightarrow> ('w, 'v) World option" where
  "RemoveRow ops self rw w = do {
     m \<leftarrow> load (managers w) self;
     let m1 = (if size_arch m \<noteq> 0 then m\<lparr>size_arch := size_arch m - 1\<rparr> else m);
     let lastRow = size_arch m1;
     if rw \<noteq> lastRow
     then do {
       arrays \<leftarrow> EachComponent (id_arch m1) 0 (moveLastRow ops m1 rw lastRow)
                   (componentArrays m1);
       released \<leftarrow> load (recordIndices m1) (unat rw);
       w1 \<leftarrow> Release (unat released) w;
       moved \<leftarrow> load (recordIndices m1) (unat lastRow);
       e \<leftarrow> load (records w1) (unat moved);
       ri \<leftarrow> store (recordIndices m1) (unat rw) moved;
       Some (w1\<lparr>records := (records w1)[unat moved := e\<lparr>row := rw\<rparr>],
                managers := (managers w1)[self := m1\<lparr>componentArrays := arrays,
                                                       recordIndices := ri\<rparr>]\<rparr>) }
     else Some (w\<lparr>managers := (managers w)[self := m1]\<rparr>) }"

section \<open>Utils.hpp and the signature of a type list\<close>

text \<open>
  A component type as the two compile-time counters see it: \<open>TypeInfo::ID<T>\<close>, by which
  \<open>sortList\<close> orders a type list, and \<open>Component::Id<T>\<close>, the position of its bit.
\<close>

record CompType =
  TypeInfo_ID :: nat
  Component_Id :: nat

definition lessThan_t :: "CompType \<Rightarrow> CompType \<Rightarrow> bool" where
  "lessThan_t L R \<longleftrightarrow> TypeInfo_ID L < TypeInfo_ID R"

text \<open>The template \<open>merge\<close>, with its three specialisations in the order of the source.\<close>

fun Merge :: "CompType list \<Rightarrow> CompType list \<Rightarrow> CompType list" where
  "Merge [] Bs = Bs"
| "Merge As [] = As"
| "Merge (AHead # As) (BHead # Bs) =
     (if lessThan_t AHead BHead then AHead # Merge As (BHead # Bs)
      else BHead # Merge (AHead # As) Bs)"

text \<open>
  The template \<open>sortList\<close>: one type, two types, and the general case, which splits the
  list with \<open>take<firstSize, ...>\<close> (\<open>type\<close> is the prefix, \<open>rest\<close> the remainder) and merges
  the sorted halves.  The empty list has no instantiation that compiles.
\<close>

function SortedList :: "CompType list \<Rightarrow> CompType list" where
  "SortedList [] = []"
| "SortedList [A] = [A]"
| "SortedList [A, B] = (if lessThan_t A B then [A, B] else [B, A])"
| "SortedList (A # B # C # Ts) =
     (let firstSize = length (A # B # C # Ts) div 2
      in Merge (SortedList (take firstSize (A # B # C # Ts)))
               (SortedList (drop firstSize (A # B # C # Ts))))"
  by pat_completeness auto
termination
  by (relation "measure length") auto

text \<open>
  \<open>Component::IdBinary<T>\<close> is \<open>(BinaryId)1 << id\<close>; a shift by the width of \<open>BinaryId\<close> or
  more is undefined.
\<close>

definition IdBinary :: "CompType \<Rightarrow> 'w::len word option" where
  "IdBinary T =
     (if Component_Id T < LENGTH('w) then Some (push_bit (Component_Id T) 1) else None)"

text \<open>
  \<open>HelperImplementation<T...>::id\<close> is the fold expression \<open>(Component::IdBinary<T> | ...)\<close>,
  which has no value for an empty pack, and \<open>Helper<Ts...>\<close> instantiates
  \<open>HelperImplementation\<close> with the sorted list.
\<close>

fun HelperImplementation_id :: "CompType list \<Rightarrow> 'w::len word option" where
  "HelperImplementation_id [] = None"
| "HelperImplementation_id [T] = IdBinary T"
| "HelperImplementation_id (T # Ts) = do {
     a \<leftarrow> IdBinary T;
     b \<leftarrow> HelperImplementation_id Ts;
     Some (a OR b) }"

definition Helper_id :: "CompType list \<Rightarrow> 'w::len word option" where
  "Helper_id Ts = HelperImplementation_id (SortedList Ts)"

text \<open>
  \<open>Helper<Ts...>::GetInstance()\<close>.  The source computes \<open>Find(id)\<close> once per instantiation
  and keeps the index in a function-local static; blocks are never removed and \<open>Find\<close>
  returns the first block with the signature, so a later \<open>Find\<close> returns that index.
\<close>

definition GetInstance ::
  "CompType list \<Rightarrow> ('w::len, 'v) World \<Rightarrow> (nat \<times> ('w, 'v) World) option" where
  "GetInstance Ts w = do {
     binaryId \<leftarrow> Helper_id Ts;
     Find binaryId w }"

section \<open>EntityReference.hpp: handles\<close>

record EntityReference =
  recordIndex :: Index
  version_ref :: Index

definition EntityReference_default :: EntityReference where
  "EntityReference_default = \<lparr>recordIndex = InvalidIndex, version_ref = InvalidIndex\<rparr>"

text \<open>The private constructor \<open>EntityReference(const EntityRecord& record)\<close>.\<close>

fun EntityReference_ctor :: "RecordRef \<Rightarrow> ('w::len, 'v) World \<Rightarrow> EntityReference option" where
  "EntityReference_ctor (Rec i) w = do {
     e \<leftarrow> load (records w) i;
     index \<leftarrow> GetIndex (Rec i);
     Some \<lparr>recordIndex = index, version_ref = version e\<rparr> }"
| "EntityReference_ctor InvalidRec w = None"

text \<open>
  \<open>EntityReference::Access\<close>.  \<open>Components\<close> are the component ids of the parameter types
  of the lambda.  The result is the status returned and, when the lambda is invoked,
  the pointers it is invoked with; the lambda itself is code of the caller.
\<close>

definition Access ::
  "EntityReference \<Rightarrow> nat list \<Rightarrow> ('w::len, 'v) World
     \<Rightarrow> (bool \<times> ComponentPtr list option) option" where
  "Access h Components w =
     (if recordIndex h \<noteq> InvalidIndex then do {
        entry \<leftarrow> load (records w) (unat (recordIndex h));
        if version_ref h = version entry then do {
          m \<leftarrow> load (managers w) (unat (archetype entry));
          args \<leftarrow> those (map (\<lambda>T. GetComponent (unat (archetype entry)) m T (row entry))
                            Components);
          Some (True, Some args) }
        else Some (False, None) }
      else Some (False, None))"

text \<open>
  \<open>EntityReference::Destroy\<close>: the result is the handle object afterwards and the world.
\<close>

definition Destroy ::
  "'v OperationList \<Rightarrow> EntityReference \<Rightarrow> ('w::len, 'v) World
     \<Rightarrow> (EntityReference \<times> ('w, 'v) World) option" where
  "Destroy ops h w =
     (if recordIndex h \<noteq> InvalidIndex then do {
        entry \<leftarrow> load (records w) (unat (recordIndex h));
        let h' = h\<lparr>recordIndex := InvalidIndex\<rparr>;
        if version_ref h = version entry then do {
          w' \<leftarrow> RemoveRow ops (unat (archetype entry)) (row entry) w;
          Some (h', w') }
        else Some (h', w) }
      else Some (h, w))"

section \<open>World.hpp: entity creation\<close>

text \<open>\<open>World::CreateEntity<Ts...>()\<close>.\<close>

definition CreateEntity ::
  "'v OperationList \<Rightarrow> Allocator \<Rightarrow> CompType list \<Rightarrow> ('w::len, 'v) World
     \<Rightarrow> (EntityReference outcome \<times> ('w, 'v) World) option" where
  "CreateEntity ops alloc Ts w = do {
     (index, w1) \<leftarrow> GetInstance Ts w;
     (reserved, w2) \<leftarrow> ReserveRecord ops alloc index w1;
     case reserved of
       Throws e \<Rightarrow> Some (Throws e, w2)
     | Returns entityRecord \<Rightarrow> do {
         h \<leftarrow> EntityReference_ctor entityRecord w2;
         Some (Returns h, w2) } }"

section \<open>The lookup cache of a query\<close>

text \<open>
  \<open>LookupCacheImplementation<T...>\<close>: \<open>size_t lastIndexChecked\<close> and
  \<open>std::vector<uint16_t> matchedIndices\<close>, so \<open>push_back(lastIndexChecked)\<close> keeps the low
  16 bits of the index.
\<close>

record LookupCache =
  lastIndexChecked :: nat
  matchedIndices :: "Index list"

definition emptyCache :: LookupCache where
  "emptyCache = \<lparr>lastIndexChecked = 0, matchedIndices = []\<rparr>"

text \<open>The \<open>while\<close> loop of \<open>Update\<close> over the blocks from the iterator to \<open>managers.end()\<close>.\<close>

fun Update_loop ::
  "'w::len word \<Rightarrow> ('w, 'v) ArchetypeManager list \<Rightarrow> LookupCache \<Rightarrow> LookupCache" where
  "Update_loop Q [] c = c"
| "Update_loop Q (manager # rest) c =
     Update_loop Q rest
       (c\<lparr>matchedIndices :=
            (if Contains manager Q then matchedIndices c @ [of_nat (lastIndexChecked c)]
             else matchedIndices c),
          lastIndexChecked := lastIndexChecked c + 1\<rparr>)"

definition Update ::
  "'w::len word \<Rightarrow> ('w, 'v) ArchetypeManager list \<Rightarrow> LookupCache \<Rightarrow> LookupCache" where
  "Update Q ms c =
     (if lastIndexChecked c < length ms then Update_loop Q (drop (lastIndexChecked c) ms) c
      else c)"

section \<open>Notions used in the statements and proofs\<close>

text \<open>
  The component ids of a signature in ascending order, and the application of a lambda
  to a list of component ids one after the other; \<open>EachComponent\<close> is shown below to
  apply its lambda to the component ids of the signature in this order.
\<close>

definition componentIds :: "'w::len word \<Rightarrow> nat list" where
  "componentIds b = filter (bit b) [0..<LENGTH('w)]"

fun eachOf :: "nat list \<Rightarrow> (nat \<Rightarrow> 's \<Rightarrow> 's option) \<Rightarrow> 's \<Rightarrow> 's option" where
  "eachOf [] lambda s = Some s"
| "eachOf (c # cs) lambda s = do { s' \<leftarrow> lambda c s; eachOf cs lambda s' }"

text \<open>
  A history of one lookup cache, for the query key \<open>Q\<close>: blocks are resolved (and
  created when new) by \<open>Find\<close>, and the cache is brought up to date by \<open>Update\<close>.
\<close>

datatype 'b CacheEvent = FindBlock 'b | UpdateCache

fun cacheStep ::
  "'w::len word \<Rightarrow> 'w word CacheEvent \<Rightarrow> ('w, 'v) World \<times> LookupCache
     \<Rightarrow> (('w, 'v) World \<times> LookupCache) option" where
  "cacheStep Q (FindBlock b) (w, c) = do { (i, w') \<leftarrow> Find b w; Some (w', c) }"
| "cacheStep Q UpdateCache (w, c) = Some (w, Update Q (managers w) c)"

fun cacheRun ::
  "'w::len word \<Rightarrow> 'w word CacheEvent list \<Rightarrow> ('w, 'v) World \<times> LookupCache
     \<Rightarrow> (('w, 'v) World \<times> LookupCache) option" where
  "cacheRun Q [] s = Some s"
| "cacheRun Q (e # es) s = do { s' \<leftarrow> cacheStep Q e s; cacheRun Q es s' }"

text \<open>
  What a cache has recorded when it has scanned the first \<open>lastIndexChecked\<close> blocks: the
  16-bit images of the indices of the matching blocks among them, in ascending order.
\<close>

definition cacheInv :: "'w::len word \<Rightarrow> ('w, 'v) World \<times> LookupCache \<Rightarrow> bool" where
  "cacheInv Q s \<longleftrightarrow>
     lastIndexChecked (snd s) \<le> length (managers (fst s))
     \<and> matchedIndices (snd s)
         = map of_nat (filter (\<lambda>i. Contains (managers (fst s) ! i) Q)
                         [0..<lastIndexChecked (snd s)])"

text \<open>
  The handle \<open>h\<close> refers to a live entity that is stored in row \<open>r\<close> of the block at
  position \<open>a\<close>: its slot holds this block, this row and the generation of the handle,
  the row is occupied, and the block names the slot as the owner of the row.
\<close>

definition stored ::
  "('w::len, 'v) World \<Rightarrow> nat \<Rightarrow> EntityReference \<Rightarrow> Index \<Rightarrow> bool" where
  "stored w a h r \<longleftrightarrow>
     recordIndex h \<noteq> InvalidIndex
     \<and> (case load (records w) (unat (recordIndex h)) of
          None \<Rightarrow> False
        | Some entry \<Rightarrow> unat (archetype entry) = a \<and> row entry = r
                         \<and> version entry = version_ref h)
     \<and> (case load (managers w) a of
          None \<Rightarrow> False
        | Some m \<Rightarrow> r < size_arch m
                     \<and> load (recordIndices m) (unat r) = Some (recordIndex h))"

text \<open>
  The layout of a block as its constructor and \<open>ReserveRecord\<close> build it: every
  component of the signature has a column of its own, which is allocated for at least
  \<open>size\<close> rows, and so is the array of record indices.
\<close>

definition blockLayout :: "('w::len, 'v) ArchetypeManager \<Rightarrow> bool" where
  "blockLayout m \<longleftrightarrow>
     length (internalIndex m) = LENGTH('w)
     \<and> unat (size_arch m) \<le> length (recordIndices m)
     \<and> distinct (map (\<lambda>c. internalIndex m ! c) (componentIds (id_arch m)))
     \<and> list_all (\<lambda>c. internalIndex m ! c \<noteq> Unused
                    \<and> unat (internalIndex m ! c) < length (componentArrays m)
                    \<and> unat (size_arch m)
                        \<le> length (componentArrays m ! unat (internalIndex m ! c)))
          (componentIds (id_arch m))"

text \<open>
  The slot table is consistent: \<open>records\<close> has \<open>capacity\<close> elements, the active range
  lies within it, and so does every index of the free list.
\<close>

definition tableOk :: "('w::len, 'v) World \<Rightarrow> bool" where
  "tableOk w \<longleftrightarrow>
     length (records w) = capacity_rec w \<and> last_rec w \<le> capacity_rec w
     \<and> list_all (\<lambda>x. x < capacity_rec w) (freeList w)"

text \<open>
  A block is allocated for its capacity: it has the layout above, its size is at most
  its capacity, and the array of record indices and the column of every component of
  the signature have exactly \<open>capacity\<close> elements.
\<close>

definition blockAllocated :: "('w::len, 'v) ArchetypeManager \<Rightarrow> bool" where
  "blockAllocated m \<longleftrightarrow>
     blockLayout m \<and> size_arch m \<le> capacity_arch m
     \<and> length (recordIndices m) = unat (capacity_arch m)
     \<and> list_all (\<lambda>c. length (componentArrays m ! unat (internalIndex m ! c))
                      = unat (capacity_arch m))
          (componentIds (id_arch m))"

text \<open>
  Growth by \<open>growCapacity\<close> yields the intended value, 1.5 times the old capacity, while
  that value fits into the 16 bits of \<open>Index\<close>, which it does for every capacity up to
  43690.  \<open>capacityLimit c\<close> is the first capacity above 43690 that growth from the
  capacity \<open>c\<close> reaches: a block of capacity \<open>c\<close> grows to hold that many rows.
\<close>

function capacityLimit :: "Index \<Rightarrow> nat" where
  "capacityLimit c = (if unat c \<le> 43690 then capacityLimit (growCapacity c) else unat c)"
  by pat_completeness auto
termination
proof (relation "measure (\<lambda>c. 65536 - unat c)", goal_cases)
  case 1
  show ?case by simp
next
  case (2 c)
  have u: "unat (of_nat k :: Index) = k" if "k < 2 ^ 16" for k
    using that by (simp add: unat_of_nat)
  have lt: "unat c < unat (growCapacity c)"
  proof (cases "c = 0")
    case True
    then show ?thesis by (simp add: growCapacity_def)
  next
    case False
    then have nz: "unat c \<noteq> 0" by (simp add: unat_eq_0)
    from 2 have "unat c * 2 - unat c div 2 < 2 ^ 16" by simp
    then have "unat (of_nat (unat c * 2 - unat c div 2) :: Index) = unat c * 2 - unat c div 2"
      by (rule u)
    with False have "unat (growCapacity c) = unat c * 2 - unat c div 2"
      by (simp only: growCapacity_def if_False)
    with nz show ?thesis by simp
  qed
  have "unat (growCapacity c) < 65536"
    using unsigned_less [of "growCapacity c", where 'a = nat] by simp
  with lt show ?case by simp
qed

declare capacityLimit.simps [simp del]

text \<open>
  The caller of \<open>World::CreateEntity(lambda)\<close> initialises the new row through the
  pointers \<open>&GetComponentArray<T>()[record.row]\<close>: \<open>writeRow\<close> is a lambda that assigns
  the value \<open>vals c\<close> to the component \<open>c\<close> of row \<open>r\<close>, for every component of the block.
  \<open>insertRows\<close> inserts one entity after the other into the block at position \<open>a\<close>, each
  by \<open>ReserveRecord\<close> followed by this initialisation of the row that the record names;
  an exception of \<open>ReserveRecord\<close> ends the insertions.
\<close>

definition writeRow ::
  "nat \<Rightarrow> Index \<Rightarrow> (nat \<Rightarrow> 'v) \<Rightarrow> ('w::len, 'v) World \<Rightarrow> ('w, 'v) World option" where
  "writeRow a r vals w = do {
     m \<leftarrow> load (managers w) a;
     arrays \<leftarrow> eachOf (componentIds (id_arch m))
       (\<lambda>c arrays. do {
          index \<leftarrow> load (internalIndex m) c;
          col \<leftarrow> load arrays (unat index);
          col' \<leftarrow> store col (unat r) (vals c);
          store arrays (unat index) col' })
       (componentArrays m);
     Some (w\<lparr>managers := (managers w)[a := m\<lparr>componentArrays := arrays\<rparr>]\<rparr>) }"

fun rowOf :: "RecordRef \<Rightarrow> ('w::len, 'v) World \<Rightarrow> Index option" where
  "rowOf (Rec i) w = map_option row (load (records w) i)"
| "rowOf InvalidRec w = Some (row (invalidRecord w))"

fun insertRows ::
  "'v OperationList \<Rightarrow> Allocator \<Rightarrow> nat \<Rightarrow> (nat \<Rightarrow> 'v) list \<Rightarrow> ('w::len, 'v) World
     \<Rightarrow> (unit outcome \<times> ('w, 'v) World) option" where
  "insertRows ops alloc a [] w = Some (Returns (), w)"
| "insertRows ops alloc a (vals # rest) w = do {
     (reserved, w1) \<leftarrow> ReserveRecord ops alloc a w;
     case reserved of
       Throws e \<Rightarrow> Some (Throws e, w1)
     | Returns entityRecord \<Rightarrow> do {
         r \<leftarrow> rowOf entityRecord w1;
         w2 \<leftarrow> writeRow a r vals w1;
         insertRows ops alloc a rest w2 } }"

section \<open>Example worlds\<close>

text \<open>
  Concrete inputs on a target with a 64-bit \<open>size_t\<close>: two component types \<open>A\<close> and \<open>B\<close>
  holding numbers, both default-constructible with \<open>T{}\<close> equal to 0, and an allocator
  that never fails.
\<close>

definition exampleOps :: "nat OperationList" where
  "exampleOps = (\<lambda>_. \<lparr>newElement = 0, movedFrom = (\<lambda>_. 0)\<rparr>)"

definition allocOk :: Allocator where
  "allocOk = \<lparr>newRecords = True, reallocIndices = True, newColumn = (\<lambda>_. True),
     freshIndex = 0\<rparr>"

definition typeA :: CompType where
  "typeA = \<lparr>TypeInfo_ID = 0, Component_Id = 0\<rparr>"

definition typeB :: CompType where
  "typeB = \<lparr>TypeInfo_ID = 1, Component_Id = 1\<rparr>"

definition handle :: "nat \<Rightarrow> nat \<Rightarrow> EntityReference" where
  "handle i v = \<lparr>recordIndex = of_nat i, version_ref = of_nat v\<rparr>"

text \<open>
  The world after \<open>World::CreateEntity<A>()\<close> in the empty world (\<open>oneEntityWorld 1\<close>), and
  the same world with the size of its block set to \<open>n\<close>.
\<close>

definition oneEntityWorld :: "Index \<Rightarrow> (64, nat) World" where
  "oneEntityWorld n = \<lparr>capacity_rec = 2, last_rec = 1, freeList = [],
     records = [\<lparr>archetype = 0, row = 0, version = 0\<rparr>, defaultRecord],
     invalidRecord = defaultRecord,
     managers = [\<lparr>id_arch = 1, recordIndices = [0, 0], componentArrays = [[0, 0]],
                  internalIndex = replicate 64 0, capacity_arch = 2, size_arch = n\<rparr>]\<rparr>"

text \<open>
  The world after three calls of \<open>World::CreateEntity\<close> for the types \<open>A\<close> and \<open>B\<close> (the
  type list given in both orders) and after the caller has written the values 10, 11,
  12 and 20, 21, 22 into the two columns; and the world after the entity in the middle
  row has been destroyed.
\<close>

definition threeEntityWorld :: "(64, nat) World" where
  "threeEntityWorld = \<lparr>capacity_rec = 3, last_rec = 3, freeList = [],
     records = [\<lparr>archetype = 0, row = 0, version = 0\<rparr>,
                \<lparr>archetype = 0, row = 1, version = 0\<rparr>,
                \<lparr>archetype = 0, row = 2, version = 0\<rparr>],
     invalidRecord = defaultRecord,
     managers = [\<lparr>id_arch = 3, recordIndices = [0, 1, 2],
                  componentArrays = [[10, 11, 12], [20, 21, 22]],
                  internalIndex = 0 # 1 # replicate 62 0,
                  capacity_arch = 3, size_arch = 3\<rparr>]\<rparr>"

definition twoEntityWorld :: "(64, nat) World" where
  "twoEntityWorld = \<lparr>capacity_rec = 3, last_rec = 3, freeList = [1],
     records = [\<lparr>archetype = 0, row = 0, version = 0\<rparr>,
                \<lparr>archetype = InvalidIndex, row = InvalidIndex, version = 1\<rparr>,
                \<lparr>archetype = 0, row = 1, version = 0\<rparr>],
     invalidRecord = defaultRecord,
     managers = [\<lparr>id_arch = 3, recordIndices = [0, 2, 2],
                  componentArrays = [[10, 12, 0], [20, 22, 0]],
                  internalIndex = 0 # 1 # replicate 62 0,
                  capacity_arch = 3, size_arch = 2\<rparr>]\<rparr>"

text \<open>
  A history with 65537 blocks: the signatures 1, 3, 5, ... are resolved one after the
  other, each creating a block, and all of them contain the query key 1.
\<close>

definition manySignatures :: "nat \<Rightarrow> 64 word list" where
  "manySignatures n = map (\<lambda>i. of_nat (2 * i + 1)) [0..<n]"

definition manyBlocksHistory :: "64 word CacheEvent list" where
  "manyBlocksHistory = map FindBlock (manySignatures 65537) @ [UpdateCache]"

text \<open>
  The world after \<open>Find\<close> has created the blocks with the signatures 3, 2 and 1, in this
  order.
\<close>

definition threeBlockWorld :: "(64, nat) World" where
  "threeBlockWorld = emptyWorld\<lparr>managers :=
     [\<lparr>id_arch = 3, recordIndices = [], componentArrays = [[], []],
       internalIndex = 0 # 1 # replicate 62 0, capacity_arch = 0, size_arch = 0\<rparr>,
      \<lparr>id_arch = 2, recordIndices = [], componentArrays = [[]],
       internalIndex = Unused # 0 # replicate 62 0, capacity_arch = 0, size_arch = 0\<rparr>,
      \<lparr>id_arch = 1, recordIndices = [], componentArrays = [[]],
       internalIndex = 0 # replicate 63 0, capacity_arch = 0, size_arch = 0\<rparr>]\<rparr>"

text \<open>
  The world after 61446 entities have been created in one block with the signature 1:
  the slot table and the block have both reached the capacity 61446 (the capacities
  grow 2, 3, 5, 8, 12, ..., 40964, 61446) and the block is full.
\<close>

definition fullBlockWorld :: "(64, nat) World" where
  "fullBlockWorld = \<lparr>capacity_rec = 61446, last_rec = 61446, freeList = [],
     records = map (\<lambda>i. \<lparr>archetype = 0, row = of_nat i, version = 0\<rparr>) [0..<61446],
     invalidRecord = defaultRecord,
     managers = [\<lparr>id_arch = 1, recordIndices = map of_nat [0..<61446],
                  componentArrays = [replicate 61446 0],
                  internalIndex = replicate 64 0,
                  capacity_arch = 61446, size_arch = 61446\<rparr>]\<rparr>"

text \<open>
  The world in which \<open>Find\<close> has created the block for the types \<open>A\<close> and \<open>B\<close> and no
  entity exists yet, and three rows of values for the two components.
\<close>

definition emptyBlockWorld :: "(64, nat) World" where
  "emptyBlockWorld = emptyWorld\<lparr>managers :=
     [\<lparr>id_arch = 3, recordIndices = [], componentArrays = [[], []],
       internalIndex = 0 # 1 # replicate 62 0, capacity_arch = 0, size_arch = 0\<rparr>]\<rparr>"

definition threeRows :: "(nat \<Rightarrow> nat) list" where
  "threeRows = [\<lambda>c. 10 + 10 * c, \<lambda>c. 11 + 10 * c, \<lambda>c. 12 + 10 * c]"

section \<open>Evaluation of the examples\<close>

lemma oneEntityWorld_created:
  "CreateEntity exampleOps allocOk [typeA] emptyWorld
     = Some (Returns (handle 0 0), oneEntityWorld 1)"
  by code_simp

lemma oneEntityWorld_destroyed:
  "Destroy exampleOps (handle 0 0) (oneEntityWorld 1)
     = Some ((handle 0 0)\<lparr>recordIndex := InvalidIndex\<rparr>, oneEntityWorld 0)"
  by code_simp

lemma threeEntityWorld_created:
  "do {
     (h0, w) \<leftarrow> CreateEntity exampleOps allocOk [typeA, typeB] emptyWorld;
     (h1, w) \<leftarrow> CreateEntity exampleOps allocOk [typeB, typeA] w;
     (h2, w) \<leftarrow> CreateEntity exampleOps allocOk [typeA, typeB] w;
     w \<leftarrow> assign (Element 0 0 0) 10 w;
     w \<leftarrow> assign (Element 0 0 1) 11 w;
     w \<leftarrow> assign (Element 0 0 2) 12 w;
     w \<leftarrow> assign (Element 0 1 0) 20 w;
     w \<leftarrow> assign (Element 0 1 1) 21 w;
     w \<leftarrow> assign (Element 0 1 2) 22 w;
     Some ([h0, h1, h2], w) }
   = Some ([Returns (handle 0 0), Returns (handle 1 0), Returns (handle 2 0)],
           threeEntityWorld)"
  by code_simp

lemma threeEntityWorld_destroyed:
  "Destroy exampleOps (handle 1 0) threeEntityWorld
     = Some ((handle 1 0)\<lparr>recordIndex := InvalidIndex\<rparr>, twoEntityWorld)"
  by code_simp

section \<open>Destroying an entity\<close>

text \<open>
  Claim C1.  Destroy on a handle whose generation matches is to remove the row and to
  release the slot, with the generation incremented, also when the entity is in the last
  occupied row of its block.  The code does not do so for the last row: \<open>RemoveRow\<close>
  calls \<open>Release\<close> only inside \<open>if (row != lastRow)\<close>.  In the world with one entity,
  created by \<open>CreateEntity<A>()\<close>, Destroy decrements the size of the block and leaves
  the slot table as it was: slot 0 keeps its archetype, its row and its generation 0,
  the active range stays 1, and a copy of the handle taken before the call still passes
  the generation check of Access.
\<close>

theorem Destroy_last_row_keeps_slot:
  "CreateEntity exampleOps allocOk [typeA] emptyWorld
     = Some (Returns (handle 0 0), oneEntityWorld 1)
   \<and> Destroy exampleOps (handle 0 0) (oneEntityWorld 1)
       = Some ((handle 0 0)\<lparr>recordIndex := InvalidIndex\<rparr>, oneEntityWorld 0)
   \<and> records (oneEntityWorld 0) = records (oneEntityWorld 1)
   \<and> load (records (oneEntityWorld 0)) 0 = Some \<lparr>archetype = 0, row = 0, version = 0\<rparr>
   \<and> last_rec (oneEntityWorld 0) = 1
   \<and> freeList (oneEntityWorld 0) = []
   \<and> Access (handle 0 0) [0] (oneEntityWorld 0) = Some (True, Some [Element 0 0 0])"
proof -
  have "Access (handle 0 0) [0] (oneEntityWorld 0) = Some (True, Some [Element 0 0 0])"
    by code_simp
  moreover have "load (records (oneEntityWorld 0)) 0
      = Some \<lparr>archetype = 0, row = 0, version = 0\<rparr>"
    by (simp add: oneEntityWorld_def load_def)
  ultimately show ?thesis
    using oneEntityWorld_created oneEntityWorld_destroyed
    by (simp add: oneEntityWorld_def)
qed

text \<open>
  Claim C2.  After \<open>h.Destroy()\<close> has returned, the handle object \<open>h'\<close> it leaves behind
  is dead in every later world \<open>w2\<close> (whatever creations and destructions led to it):
  Access returns false and does not invoke the lambda, and a further Destroy returns the
  handle and the world unchanged.
\<close>

theorem Destroy_then_handle_dead:
  assumes "Destroy ops h w = Some (h', w')"
  shows "Access h' Components w2 = Some (False, None)
         \<and> Destroy ops2 h' w2 = Some (h', w2)"
proof -
  from assms have "recordIndex h' = InvalidIndex"
    by (auto simp: Destroy_def Let_def split: if_splits bind_splits)
  then show ?thesis
    by (simp add: Access_def Destroy_def)
qed

theorem Destroy_then_handle_dead_witness:
  "Destroy exampleOps (handle 0 0) (oneEntityWorld 1)
     = Some ((handle 0 0)\<lparr>recordIndex := InvalidIndex\<rparr>, oneEntityWorld 0)
   \<and> Access ((handle 0 0)\<lparr>recordIndex := InvalidIndex\<rparr>) [0] (oneEntityWorld 0)
       = Some (False, None)
   \<and> Destroy exampleOps ((handle 0 0)\<lparr>recordIndex := InvalidIndex\<rparr>) (oneEntityWorld 0)
       = Some ((handle 0 0)\<lparr>recordIndex := InvalidIndex\<rparr>, oneEntityWorld 0)"
  using Destroy_then_handle_dead [OF oneEntityWorld_destroyed, of "[0]" "oneEntityWorld 0" exampleOps]
    oneEntityWorld_destroyed
  by simp

section \<open>Allocation failure\<close>

lemma new_array_not_null: "new_array allocated n x \<noteq> Returns None"
  by (simp add: new_array_def)

lemma ResizeArray_bad_alloc:
  "ResizeArray T False ptrToArray newSize moveCount = Some (Throws bad_alloc, ptrToArray)"
  by (simp add: ResizeArray_def new_array_def)

lemma ResizeArray_not_false:
  "ResizeArray T allocated ptrToArray newSize moveCount \<noteq> Some (Returns False, newArray)"
  by (cases allocated) (auto simp: ResizeArray_def new_array_def split: bind_splits)

lemma Reserve_bad_alloc:
  assumes "freeList w = []" and "capacity_rec w \<le> last_rec w"
  shows "Reserve False w
    = Some (Throws bad_alloc,
            w\<lparr>capacity_rec := (if capacity_rec w = 0 then 2
                                else capacity_rec w * 2 - capacity_rec w div 2)\<rparr>)"
  using assms by (simp add: Reserve_def new_array_def)

lemma Reserve_not_invalid:
  "Reserve allocated w \<noteq> Some (Returns InvalidRec, w')"
  by (cases allocated)
     (auto simp: Reserve_def new_array_def Let_def split: list.splits bind_splits if_splits)

text \<open>
  Claim C6.  A failed allocation is to be reported by a failure result, \<open>false\<close> from
  ResizeArray and the invalid record from Reserve, and never by an exception.  The code
  allocates with plain new-expressions, which raise \<open>std::bad_alloc\<close> and never yield the
  null pointer that \<open>if (!newArray)\<close> tests for.  So, whatever the allocation does,
  ResizeArray does not return \<open>false\<close> and Reserve does not return the invalid record; when
  the allocation fails, both raise \<open>std::bad_alloc\<close>.  ResizeArray of a column of three
  elements raises it and leaves the column as it was.  Reserve in the empty world raises
  it and leaves \<open>capacity\<close> at the grown value 2 with no array allocated, so that the next
  Reserve, finding room, refers to \<open>records[0]\<close> of an array that does not exist.
  \<open>World::CreateEntity<A>()\<close> in the empty world raises the exception as well, when the
  allocation of the slot table fails and when the allocation of the column fails; in
  the second case slot 0 has been reserved and the block has its new capacity 2 and an
  array of record indices, but no column.
\<close>

theorem allocation_failure_throws:
  "ResizeArray T allocated ptrToArray newSize moveCount \<noteq> Some (Returns False, newArray)
   \<and> Reserve allocated w \<noteq> Some (Returns InvalidRec, w')
   \<and> ResizeArray (exampleOps 0) False [1, 2, 3] 5 3 = Some (Throws bad_alloc, [1, 2, 3])
   \<and> Reserve False (emptyWorld :: (64, nat) World)
       = Some (Throws bad_alloc, emptyWorld\<lparr>capacity_rec := 2\<rparr>)
   \<and> Reserve True (emptyWorld\<lparr>capacity_rec := 2\<rparr> :: (64, nat) World) = None
   \<and> CreateEntity exampleOps (allocOk\<lparr>newRecords := False\<rparr>) [typeA] emptyWorld
       = Some (Throws bad_alloc,
               \<lparr>capacity_rec = 2, last_rec = 0, freeList = [], records = [],
                invalidRecord = defaultRecord,
                managers = [\<lparr>id_arch = 1 :: 64 word, recordIndices = [], componentArrays = [[]],
                             internalIndex = replicate 64 0, capacity_arch = 0,
                             size_arch = 0\<rparr>]\<rparr>)
   \<and> CreateEntity exampleOps (allocOk\<lparr>newColumn := (\<lambda>_. False)\<rparr>) [typeA] emptyWorld
       = Some (Throws bad_alloc,
               \<lparr>capacity_rec = 2, last_rec = 1, freeList = [],
                records = [defaultRecord, defaultRecord],
                invalidRecord = defaultRecord,
                managers = [\<lparr>id_arch = 1 :: 64 word, recordIndices = [0, 0], componentArrays = [[]],
                             internalIndex = replicate 64 0, capacity_arch = 2,
                             size_arch = 0\<rparr>]\<rparr>)"
proof -
  have "ResizeArray (exampleOps 0) False [1, 2, 3] 5 3 = Some (Throws bad_alloc, [1, 2, 3])"
    by (rule ResizeArray_bad_alloc)
  moreover have "Reserve False (emptyWorld :: (64, nat) World)
      = Some (Throws bad_alloc, emptyWorld\<lparr>capacity_rec := 2\<rparr>)"
    by (simp add: Reserve_bad_alloc emptyWorld_def)
  moreover have "Reserve True (emptyWorld\<lparr>capacity_rec := 2\<rparr> :: (64, nat) World) = None"
    by (simp add: Reserve_def emptyWorld_def load_def)
  moreover have "CreateEntity exampleOps (allocOk\<lparr>newRecords := False\<rparr>) [typeA] emptyWorld
       = Some (Throws bad_alloc,
               \<lparr>capacity_rec = 2, last_rec = 0, freeList = [], records = [],
                invalidRecord = defaultRecord,
                managers = [\<lparr>id_arch = 1 :: 64 word, recordIndices = [],
                             componentArrays = [[] :: nat list],
                             internalIndex = replicate 64 0, capacity_arch = 0,
                             size_arch = 0\<rparr>]\<rparr>)"
    by code_simp
  moreover have "CreateEntity exampleOps (allocOk\<lparr>newColumn := (\<lambda>_. False)\<rparr>) [typeA] emptyWorld
       = Some (Throws bad_alloc,
               \<lparr>capacity_rec = 2, last_rec = 1, freeList = [],
                records = [defaultRecord, defaultRecord],
                invalidRecord = defaultRecord,
                managers = [\<lparr>id_arch = 1 :: 64 word, recordIndices = [0, 0],
                             componentArrays = [[] :: nat list],
                             internalIndex = replicate 64 0, capacity_arch = 2,
                             size_arch = 0\<rparr>]\<rparr>)"
    by code_simp
  ultimately show ?thesis
    using ResizeArray_not_false [of T allocated ptrToArray newSize moveCount newArray]
      Reserve_not_invalid [of allocated w w']
    by (simp only: simp_thms)
qed

section \<open>Components that a block does not have\<close>

text \<open>
  Claim C9.  GetComponent is to return the null pointer for every component type that is
  not in the signature of the block.  It does so only for the component with id 0: the
  initialiser \<open>= { Unused }\<close> of \<open>internalIndex\<close> sets element 0 alone to \<open>Unused\<close> and the
  other elements to 0.  In the block with signature 1 (the component with id 0 only),
  the component with id 1 is not contained, its entry of \<open>internalIndex\<close> is 0, and
  \<open>GetComponent\<close> returns a pointer into column 0, the column of the component with id 0.
\<close>

theorem GetComponent_absent_component_not_null:
  "Option.bind (ArchetypeManager_ctor (1 :: 64 word) :: (64, 'v) ArchetypeManager option)
     (\<lambda>m. Some (Contains m 2, load (internalIndex m) 1, GetComponent 0 m 1 7))
   = Some (False, Some 0, Some (Element 0 0 7))"
  by code_simp

text \<open>
  Claim C10.  A handle is stale when the generation it stores differs from the current
  generation of its slot.  Destroy on such a handle compares the generations before it
  calls \<open>RemoveRow\<close>, so it changes neither the slot table nor any block: the world is
  returned as it was, and only the handle object is marked as consumed.
\<close>

theorem Destroy_stale_handle_changes_nothing:
  assumes "recordIndex h \<noteq> InvalidIndex"
    and "load (records w) (unat (recordIndex h)) = Some entry"
    and "version_ref h \<noteq> version entry"
  shows "Destroy ops h w = Some (h\<lparr>recordIndex := InvalidIndex\<rparr>, w)"
  using assms by (simp add: Destroy_def)

theorem Destroy_stale_handle_changes_nothing_witness:
  "recordIndex (handle 1 0) \<noteq> InvalidIndex
   \<and> load (records twoEntityWorld) (unat (recordIndex (handle 1 0)))
       = Some \<lparr>archetype = InvalidIndex, row = InvalidIndex, version = 1\<rparr>
   \<and> version_ref (handle 1 0)
       \<noteq> version \<lparr>archetype = InvalidIndex, row = InvalidIndex, version = 1\<rparr>
   \<and> Destroy exampleOps (handle 1 0) twoEntityWorld
       = Some ((handle 1 0)\<lparr>recordIndex := InvalidIndex\<rparr>, twoEntityWorld)"
proof -
  have a: "recordIndex (handle 1 0) \<noteq> InvalidIndex"
    by (simp add: handle_def InvalidIndex_def)
  have b: "load (records twoEntityWorld) (unat (recordIndex (handle 1 0)))
      = Some \<lparr>archetype = InvalidIndex, row = InvalidIndex, version = 1\<rparr>"
    by (simp add: handle_def twoEntityWorld_def load_def)
  have c: "version_ref (handle 1 0)
      \<noteq> version \<lparr>archetype = InvalidIndex, row = InvalidIndex, version = 1\<rparr>"
    by (simp add: handle_def)
  from Destroy_stale_handle_changes_nothing [OF a b c, of exampleOps] a b c
  show ?thesis by simp
qed

section \<open>The slot table\<close>

lemma upt_shift: "map (\<lambda>j. l - 1 - j) [0..<Suc k] = (l - 1) # map (\<lambda>j. l - 1 - 1 - j) [0..<k]"
proof -
  have "[0..<Suc k] = 0 # map Suc [0..<k]"
    by (simp add: upt_conv_Cons map_Suc_upt del: upt_Suc)
  then show ?thesis
    by (simp add: comp_def del: upt_Suc)
qed

lemma popTrailing_spec:
  "popTrailing l fl = (l', fl') \<Longrightarrow>
     \<exists>k\<le>l. fl = map (\<lambda>j. l - 1 - j) [0..<k] @ fl' \<and> l' = l - k
          \<and> \<not> (0 < l' \<and> fl' \<noteq> [] \<and> hd fl' = l' - 1)"
proof (induction fl arbitrary: l)
  case Nil
  then show ?case by auto
next
  case (Cons t fl)
  show ?case
  proof (cases "0 < l \<and> t = l - 1")
    case True
    with Cons.prems have "popTrailing (l - 1) fl = (l', fl')" by simp
    from Cons.IH [OF this] obtain k where k: "k \<le> l - 1"
      "fl = map (\<lambda>j. l - 1 - 1 - j) [0..<k] @ fl'" "l' = l - 1 - k"
      "\<not> (0 < l' \<and> fl' \<noteq> [] \<and> hd fl' = l' - 1)" by blast
    from True k(2) have eq: "t # fl = map (\<lambda>j. l - 1 - j) [0..<Suc k] @ fl'"
      unfolding upt_shift by simp
    from True k(1) have le: "Suc k \<le> l" by arith
    from k(3) have l': "l' = l - Suc k" by arith
    from le eq l' k(4) show ?thesis by (intro exI [of _ "Suc k"]) (simp only: simp_thms)
  next
    case False
    with Cons.prems have "l' = l" "fl' = t # fl" by auto
    with False show ?thesis by (intro exI [of _ 0]) auto
  qed
qed

lemma Release_eq:
  assumes "self < length (records w)" and "self < 2 ^ 16"
  shows "Release self w =
    Some (let r = records w ! self;
              recs = (records w)[self := r\<lparr>archetype := InvalidIndex, row := InvalidIndex,
                                             version := version r + 1\<rparr>]
          in if last_rec w \<noteq> 0 \<and> self = last_rec w - 1
             then w\<lparr>records := recs,
                    last_rec := fst (popTrailing (last_rec w - 1) (freeList w)),
                    freeList := snd (popTrailing (last_rec w - 1) (freeList w))\<rparr>
             else w\<lparr>records := recs, freeList := self # freeList w\<rparr>)"
proof -
  from assms(2) have "unat (of_nat self :: Index) = self"
    by (simp add: unat_of_nat)
  with assms(1) show ?thesis
    by (simp add: Release_def load_def Let_def split: prod.split)
qed

lemma Reserve_reuse:
  "freeList u = x # xs \<Longrightarrow> x < length (records u)
     \<Longrightarrow> Reserve a u = Some (Returns (Rec x), u\<lparr>freeList := xs\<rparr>)"
  by (simp add: Reserve_def load_def)

lemma Reserve_extend:
  "freeList u = [] \<Longrightarrow> last_rec u < capacity_rec u \<Longrightarrow> last_rec u < length (records u)
     \<Longrightarrow> Reserve a u = Some (Returns (Rec (last_rec u)), u\<lparr>last_rec := last_rec u + 1\<rparr>)"
  by (simp add: Reserve_def load_def)

lemma Release_live_slot:
  fixes i :: Index
  assumes live: "unat i < last_rec w" and inrange: "last_rec w \<le> length (records w)"
  shows "\<exists>w'. Release (unat i) w = Some w'
     \<and> load (records w') (unat i)
         = Some \<lparr>archetype = InvalidIndex, row = InvalidIndex,
                 version = version (records w ! unat i) + 1\<rparr>
     \<and> (\<forall>j. j \<noteq> unat i \<longrightarrow> load (records w') j = load (records w) j)
     \<and> (unat i = last_rec w - 1 \<longrightarrow>
          (\<exists>k\<le>last_rec w - 1.
             freeList w = map (\<lambda>j. last_rec w - 1 - 1 - j) [0..<k] @ freeList w'
             \<and> last_rec w' = last_rec w - 1 - k
             \<and> \<not> (0 < last_rec w' \<and> freeList w' \<noteq> []
                   \<and> hd (freeList w') = last_rec w' - 1)))
     \<and> (unat i \<noteq> last_rec w - 1 \<longrightarrow>
          last_rec w' = last_rec w \<and> freeList w' = unat i # freeList w
          \<and> Reserve a w' = Some (Returns (Rec (unat i)), w'\<lparr>freeList := freeList w\<rparr>))"
proof -
  have small: "unat i < 2 ^ 16"
    using unsigned_less [of i, where 'a = nat] by simp
  from live inrange have len: "unat i < length (records w)" by simp
  let ?r = "records w ! unat i"
  let ?recs = "(records w)[unat i := ?r\<lparr>archetype := InvalidIndex, row := InvalidIndex,
                                        version := version ?r + 1\<rparr>]"
  have recs_at: "load ?recs (unat i)
      = Some \<lparr>archetype = InvalidIndex, row = InvalidIndex, version = version ?r + 1\<rparr>"
    using len by (simp add: load_def)
  have recs_other: "\<forall>j. j \<noteq> unat i \<longrightarrow> load ?recs j = load (records w) j"
    by (simp add: load_def)
  show ?thesis
  proof (cases "unat i = last_rec w - 1")
    case True
    obtain l fl where p: "popTrailing (last_rec w - 1) (freeList w) = (l, fl)"
      by (cases "popTrailing (last_rec w - 1) (freeList w)")
    from popTrailing_spec [OF p] obtain k where k: "k \<le> last_rec w - 1"
      "freeList w = map (\<lambda>j. last_rec w - 1 - 1 - j) [0..<k] @ fl" "l = last_rec w - 1 - k"
      "\<not> (0 < l \<and> fl \<noteq> [] \<and> hd fl = l - 1)" by blast
    from live have nz: "last_rec w \<noteq> 0" by simp
    let ?w' = "w\<lparr>records := ?recs, last_rec := l, freeList := fl\<rparr>"
    have rel: "Release (unat i) w = Some ?w'"
      unfolding Release_eq [OF len small] Let_def using nz True p by simp
    have sel: "records ?w' = ?recs" "last_rec ?w' = l" "freeList ?w' = fl" by simp_all
    have shrink: "\<exists>k\<le>last_rec w - 1.
             freeList w = map (\<lambda>j. last_rec w - 1 - 1 - j) [0..<k] @ fl
             \<and> l = last_rec w - 1 - k
             \<and> \<not> (0 < l \<and> fl \<noteq> [] \<and> hd fl = l - 1)"
      using k by blast
    show ?thesis
      apply (rule exI [of _ ?w'])
      apply (simp only: sel)
      using rel recs_at recs_other True shrink apply (simp only: simp_thms)
      done
  next
    case False
    let ?w' = "w\<lparr>records := ?recs, freeList := unat i # freeList w\<rparr>"
    have rel: "Release (unat i) w = Some ?w'"
      unfolding Release_eq [OF len small] Let_def using False by simp
    have sel: "records ?w' = ?recs" "last_rec ?w' = last_rec w"
      "freeList ?w' = unat i # freeList w" by simp_all
    have res: "Reserve a ?w' = Some (Returns (Rec (unat i)), ?w'\<lparr>freeList := freeList w\<rparr>)"
      using len by (simp add: Reserve_def load_def)
    show ?thesis
      apply (rule exI [of _ ?w'])
      apply (simp only: sel)
      using rel recs_at recs_other False res apply (simp only: simp_thms)
      done
  qed
qed

text \<open>
  Claim C7.  Slot identities are values of \<open>Index\<close>.  For every slot \<open>i\<close> of the active
  range, Release sets the archetype and the row of the slot to InvalidIndex and
  increments its generation, and leaves every other slot as it was.  If \<open>i\<close> is the
  highest active index, the active range shrinks by one and then by a further \<open>k\<close>: the
  top \<open>k\<close> entries of the free list, which are the indices \<open>last - 2\<close>, \<open>last - 3\<close>, ...
  in this order, are popped, and the loop stops where the range is empty, the free list
  is empty or its top is not the highest index.  Otherwise \<open>i\<close> is pushed onto the free
  list and the next Reserve returns slot \<open>i\<close> again, restoring the free list.  Reserve
  in general: with a non-empty free list it pops and returns the top (the index released
  last) and leaves the active range alone; with an empty free list and room in the
  table it returns the first index beyond the active range and extends the range by one.
\<close>

theorem Release_and_Reserve_slot_table:
  fixes i :: Index and w u :: "('w::len, 'v) World"
  assumes live: "unat i < last_rec w" and inrange: "last_rec w \<le> length (records w)"
  shows "(\<exists>w'. Release (unat i) w = Some w'
     \<and> load (records w') (unat i)
         = Some \<lparr>archetype = InvalidIndex, row = InvalidIndex,
                 version = version (records w ! unat i) + 1\<rparr>
     \<and> (\<forall>j. j \<noteq> unat i \<longrightarrow> load (records w') j = load (records w) j)
     \<and> (unat i = last_rec w - 1 \<longrightarrow>
          (\<exists>k\<le>last_rec w - 1.
             freeList w = map (\<lambda>j. last_rec w - 1 - 1 - j) [0..<k] @ freeList w'
             \<and> last_rec w' = last_rec w - 1 - k
             \<and> \<not> (0 < last_rec w' \<and> freeList w' \<noteq> []
                   \<and> hd (freeList w') = last_rec w' - 1)))
     \<and> (unat i \<noteq> last_rec w - 1 \<longrightarrow>
          last_rec w' = last_rec w \<and> freeList w' = unat i # freeList w
          \<and> Reserve a w' = Some (Returns (Rec (unat i)), w'\<lparr>freeList := freeList w\<rparr>)))
   \<and> (\<forall>x xs. freeList u = x # xs \<longrightarrow> x < length (records u)
          \<longrightarrow> Reserve a u = Some (Returns (Rec x), u\<lparr>freeList := xs\<rparr>))
   \<and> (freeList u = [] \<longrightarrow> last_rec u < capacity_rec u \<longrightarrow> last_rec u < length (records u)
          \<longrightarrow> Reserve a u = Some (Returns (Rec (last_rec u)), u\<lparr>last_rec := last_rec u + 1\<rparr>))"
  using Release_live_slot [OF live inrange, of a] Reserve_reuse [of u _ _ a]
    Reserve_extend [of u a]
  by blast

theorem Release_and_Reserve_slot_table_witness:
  "unat (1 :: Index) < last_rec threeEntityWorld
   \<and> last_rec threeEntityWorld \<le> length (records threeEntityWorld)
   \<and> (\<exists>w'. Release (unat (1 :: Index)) threeEntityWorld = Some w'
         \<and> load (records w') 1
             = Some \<lparr>archetype = InvalidIndex, row = InvalidIndex, version = 1\<rparr>
         \<and> last_rec w' = 3 \<and> freeList w' = [1]
         \<and> Reserve True w' = Some (Returns (Rec 1), w'\<lparr>freeList := []\<rparr>))"
proof -
  have a: "unat (1 :: Index) < last_rec threeEntityWorld"
    by (simp add: threeEntityWorld_def)
  have b: "last_rec threeEntityWorld \<le> length (records threeEntityWorld)"
    by (simp add: threeEntityWorld_def)
  have c: "unat (1 :: Index) \<noteq> last_rec threeEntityWorld - 1"
    by (simp add: threeEntityWorld_def)
  have d: "version (records threeEntityWorld ! unat (1 :: Index)) + 1 = 1"
    "last_rec threeEntityWorld = 3" "freeList threeEntityWorld = []"
    by (simp_all add: threeEntityWorld_def)
  from Release_and_Reserve_slot_table [OF a b, of True threeEntityWorld]
  obtain w' where w': "Release (unat (1 :: Index)) threeEntityWorld = Some w'"
    "load (records w') (unat (1 :: Index))
       = Some \<lparr>archetype = InvalidIndex, row = InvalidIndex,
               version = version (records threeEntityWorld ! unat (1 :: Index)) + 1\<rparr>"
    "unat (1 :: Index) \<noteq> last_rec threeEntityWorld - 1 \<longrightarrow>
       last_rec w' = last_rec threeEntityWorld
       \<and> freeList w' = unat (1 :: Index) # freeList threeEntityWorld
       \<and> Reserve True w' = Some (Returns (Rec (unat (1 :: Index))), w'\<lparr>freeList := freeList threeEntityWorld\<rparr>)"
    by blast
  from w'(3) c have e: "last_rec w' = last_rec threeEntityWorld"
    "freeList w' = unat (1 :: Index) # freeList threeEntityWorld"
    "Reserve True w' = Some (Returns (Rec (unat (1 :: Index))), w'\<lparr>freeList := freeList threeEntityWorld\<rparr>)"
    by blast+
  have "Release (unat (1 :: Index)) threeEntityWorld = Some w'
         \<and> load (records w') 1
             = Some \<lparr>archetype = InvalidIndex, row = InvalidIndex, version = 1\<rparr>
         \<and> last_rec w' = 3 \<and> freeList w' = [1]
         \<and> Reserve True w' = Some (Returns (Rec 1), w'\<lparr>freeList := []\<rparr>)"
    using w'(1,2) e unfolding d by simp
  with a b show ?thesis by blast
qed

section \<open>Signatures\<close>

lemma mset_Merge: "mset (Merge As Bs) = mset As + mset Bs"
  by (induction As Bs rule: Merge.induct) simp_all

lemma mset_SortedList: "mset (SortedList Ts) = mset Ts"
proof (induction Ts rule: SortedList.induct)
  case (4 A B C Ts)
  let ?xs = "A # B # C # Ts"
  let ?n = "length ?xs div 2"
  from 4 have "mset (SortedList (take ?n ?xs)) = mset (take ?n ?xs)"
    and "mset (SortedList (drop ?n ?xs)) = mset (drop ?n ?xs)"
    by simp_all
  then have "mset (SortedList ?xs) = mset (take ?n ?xs) + mset (drop ?n ?xs)"
    by (simp add: mset_Merge Let_def del: take_Cons' drop_Cons')
  also have "\<dots> = mset (take ?n ?xs @ drop ?n ?xs)"
    by (simp only: mset_append)
  finally show ?case
    by (simp only: append_take_drop_id)
qed simp_all

lemma IdBinary_Some:
  "(IdBinary T :: 'w::len word option) = Some x \<longleftrightarrow>
     Component_Id T < LENGTH('w) \<and> x = push_bit (Component_Id T) 1"
  by (auto simp: IdBinary_def)

lemma word_eq_bits: "x = y \<longleftrightarrow> (\<forall>n. bit x n \<longleftrightarrow> bit y n)"
  for x y :: "'w::len word"
  by (auto intro: bit_eqI)

lemma HelperImplementation_id_Some:
  "(HelperImplementation_id Ts :: 'w::len word option) = Some x \<longleftrightarrow>
     Ts \<noteq> [] \<and> (\<forall>T\<in>set Ts. Component_Id T < LENGTH('w))
     \<and> (\<forall>n. bit x n \<longleftrightarrow> (\<exists>T\<in>set Ts. bit (push_bit (Component_Id T) 1 :: 'w word) n))"
proof (induction Ts arbitrary: x)
  case Nil
  then show ?case by simp
next
  case (Cons T Rest)
  show ?case
  proof (cases Rest)
    case Nil
    have "x = push_bit (Component_Id T) 1
        \<longleftrightarrow> (\<forall>n. bit x n \<longleftrightarrow> bit (push_bit (Component_Id T) 1 :: 'w word) n)"
      by (rule word_eq_bits)
    then show ?thesis
      unfolding Nil by (simp add: IdBinary_Some del: bit_push_bit_iff push_bit_of_1)
  next
    case (Cons T' Ts)
    note IH = Cons.IH [unfolded Cons]
    let ?a = "push_bit (Component_Id T) 1 :: 'w word"
    show ?thesis
      unfolding Cons
    proof
      assume "(HelperImplementation_id (T # T' # Ts) :: 'w word option) = Some x"
      then obtain a b where a: "(IdBinary T :: 'w word option) = Some a"
        and b: "(HelperImplementation_id (T' # Ts) :: 'w word option) = Some b"
        and x: "x = a OR b"
        by (auto split: bind_splits)
      from b have b': "(\<forall>U\<in>set (T' # Ts). Component_Id U < LENGTH('w))"
        "\<And>n. bit b n \<longleftrightarrow> (\<exists>U\<in>set (T' # Ts). bit (push_bit (Component_Id U) 1 :: 'w word) n)"
        using IH [of b] by blast+
      from a have a': "Component_Id T < LENGTH('w)" "a = ?a"
        by (simp_all add: IdBinary_Some)
      show "T # T' # Ts \<noteq> [] \<and> (\<forall>U\<in>set (T # T' # Ts). Component_Id U < LENGTH('w))
        \<and> (\<forall>n. bit x n \<longleftrightarrow>
              (\<exists>U\<in>set (T # T' # Ts). bit (push_bit (Component_Id U) 1 :: 'w word) n))"
        using a' b' x by (auto simp: bit_or_iff simp del: bit_push_bit_iff push_bit_of_1)
    next
      assume r: "T # T' # Ts \<noteq> [] \<and> (\<forall>U\<in>set (T # T' # Ts). Component_Id U < LENGTH('w))
        \<and> (\<forall>n. bit x n \<longleftrightarrow>
              (\<exists>U\<in>set (T # T' # Ts). bit (push_bit (Component_Id U) 1 :: 'w word) n))"
      from r have la: "(IdBinary T :: 'w word option) = Some ?a"
        by (simp add: IdBinary_Some)
      have "\<exists>y :: 'w word. \<forall>n. bit y n \<longleftrightarrow>
          (\<exists>U\<in>set Vs. bit (push_bit (Component_Id U) 1 :: 'w word) n)" for Vs
      proof (induction Vs)
        case Nil
        show ?case by (intro exI [of _ 0]) simp
      next
        case (Cons V Vs)
        then obtain y :: "'w word" where
          "\<forall>n. bit y n \<longleftrightarrow> (\<exists>U\<in>set Vs. bit (push_bit (Component_Id U) 1 :: 'w word) n)"
          by blast
        then show ?case
          by (intro exI [of _ "push_bit (Component_Id V) 1 OR y"])
             (auto simp: bit_or_iff simp del: bit_push_bit_iff push_bit_of_1)
      qed
      then obtain y :: "'w word" where y: "\<And>n. bit y n \<longleftrightarrow>
          (\<exists>U\<in>set (T' # Ts). bit (push_bit (Component_Id U) 1 :: 'w word) n)"
        by blast
      from r y have ly: "(HelperImplementation_id (T' # Ts) :: 'w word option) = Some y"
        using IH [of y] by auto
      have "bit x n \<longleftrightarrow> bit (?a OR y) n" for n
        using r y [of n] by (auto simp: bit_or_iff simp del: bit_push_bit_iff push_bit_of_1)
      then have "x = ?a OR y"
        unfolding word_eq_bits [of x] by blast
      with la ly show "(HelperImplementation_id (T # T' # Ts) :: 'w word option) = Some x"
        by simp
    qed
  qed
qed

lemma HelperImplementation_id_set:
  assumes "set Ts = set Us"
  shows "(HelperImplementation_id Ts :: 'w::len word option) = HelperImplementation_id Us"
proof -
  from assms have e: "Ts = [] \<longleftrightarrow> Us = []" by auto
  have "(HelperImplementation_id Ts :: 'w word option) = Some x
      \<longleftrightarrow> (HelperImplementation_id Us :: 'w word option) = Some x" for x
    by (simp only: HelperImplementation_id_Some [of Ts x] HelperImplementation_id_Some [of Us x]
          assms e)
  then show ?thesis
    by (metis option.exhaust)
qed

lemma ArchetypeManager_ctor_id:
  "ArchetypeManager_ctor b = Some m \<Longrightarrow> id_arch m = b"
  by (auto simp: ArchetypeManager_ctor_def split: bind_splits)

lemma Find_scan_append:
  "Find_scan b ms k = None \<Longrightarrow> id_arch m = b \<Longrightarrow> Find_scan b (ms @ [m]) k = Some (k + length ms)"
  by (induction ms arbitrary: k) (auto split: if_splits)

lemma Find_again:
  assumes "Find b w = Some (i, w1)"
  shows "Find b w1 = Some (i, w1)"
proof (cases "Find_scan b (managers w) 0")
  case None
  with assms obtain m where m: "ArchetypeManager_ctor b = Some m"
    and i: "i = length (managers w)" and w1: "w1 = w\<lparr>managers := managers w @ [m]\<rparr>"
    by (auto simp: Find_def split: bind_splits)
  from Find_scan_append [OF None ArchetypeManager_ctor_id [OF m]]
  show ?thesis
    by (simp add: Find_def w1 i)
next
  case (Some j)
  with assms show ?thesis
    by (auto simp: Find_def)
qed

text \<open>
  Claim C8.  Two type lists that are permutations of each other have the same signature:
  \<open>Helper\<close> sorts the list by \<open>TypeInfo::ID\<close> and combines the single-bit ids of the sorted
  list with bitwise OR, and the result (also the case that it has no value, for a
  component id beyond the width of the signature) does not depend on the order.  Both
  lists therefore resolve to the same block: once \<open>GetInstance\<close> for the first list has
  returned the index \<open>i\<close>, \<open>GetInstance\<close> for the second list returns \<open>i\<close> too and creates
  no block.
\<close>

theorem signature_order_independent:
  assumes "mset Ts = mset Us"
  shows "(Helper_id Ts :: 'w::len word option) = Helper_id Us
     \<and> (\<forall>(w :: ('w, 'v) World) i w1.
          GetInstance Ts w = Some (i, w1) \<longrightarrow> GetInstance Us w1 = Some (i, w1))"
proof -
  from assms have "mset (SortedList Ts) = mset (SortedList Us)"
    by (simp only: mset_SortedList)
  then have "set (SortedList Ts) = set (SortedList Us)"
    by (rule mset_eq_setD)
  then have eq: "(Helper_id Ts :: 'w word option) = Helper_id Us"
    unfolding Helper_id_def by (rule HelperImplementation_id_set)
  show ?thesis
    using eq by (auto simp: GetInstance_def split: bind_splits dest: Find_again)
qed

theorem signature_order_independent_witness:
  "mset [typeA, typeB] = mset [typeB, typeA]
   \<and> (Helper_id [typeA, typeB] :: 64 word option) = Some 3
   \<and> (Helper_id [typeB, typeA] :: 64 word option) = Some 3
   \<and> GetInstance [typeA, typeB] (emptyWorld :: (64, nat) World)
       = Some (0, emptyWorld\<lparr>managers :=
           [\<lparr>id_arch = 3, recordIndices = [], componentArrays = [[], []],
             internalIndex = 0 # 1 # replicate 62 0, capacity_arch = 0, size_arch = 0\<rparr>]\<rparr>)
   \<and> GetInstance [typeB, typeA] ((emptyWorld :: (64, nat) World)\<lparr>managers :=
           [\<lparr>id_arch = 3, recordIndices = [], componentArrays = [[], []],
             internalIndex = 0 # 1 # replicate 62 0, capacity_arch = 0, size_arch = 0\<rparr>]\<rparr>)
       = Some (0, emptyWorld\<lparr>managers :=
           [\<lparr>id_arch = 3, recordIndices = [], componentArrays = [[], []],
             internalIndex = 0 # 1 # replicate 62 0, capacity_arch = 0, size_arch = 0\<rparr>]\<rparr>)"
proof -
  have a: "mset [typeA, typeB] = mset [typeB, typeA]"
    by (simp add: add.commute)
  have b: "(Helper_id [typeA, typeB] :: 64 word option) = Some 3"
    by code_simp
  have c: "GetInstance [typeA, typeB] (emptyWorld :: (64, nat) World)
       = Some (0, emptyWorld\<lparr>managers :=
           [\<lparr>id_arch = 3, recordIndices = [], componentArrays = [[], []],
             internalIndex = 0 # 1 # replicate 62 0, capacity_arch = 0, size_arch = 0\<rparr>]\<rparr>)"
    by code_simp
  from signature_order_independent [OF a, where 'w = 64 and 'v = nat] a b c
  show ?thesis by simp
qed

section \<open>EachComponent visits the component ids of the signature\<close>

lemma one_and_neq_0_iff: "1 AND b \<noteq> 0 \<longleftrightarrow> bit b 0"
  for b :: "'w::len word"
  by (simp add: one_and_eq bit_0 odd_iff_mod_2_eq_one)

lemma componentIds_step:
  fixes b :: "'w::len word"
  shows "componentIds b
    = (if bit b 0 then [0] else []) @ map Suc (componentIds (drop_bit 1 b))"
proof -
  have len: "LENGTH('w) = Suc (LENGTH('w) - 1)" by simp
  have "[0..<LENGTH('w)] = 0 # map Suc [0..<LENGTH('w) - 1]"
    by (subst len) (simp only: upt_conv_Cons zero_less_Suc map_Suc_upt)
  then have "componentIds b
      = (if bit b 0 then [0] else []) @ map Suc (filter (\<lambda>i. bit b (Suc i)) [0..<LENGTH('w) - 1])"
    by (simp add: componentIds_def filter_map comp_def)
  also have "filter (\<lambda>i. bit b (Suc i)) [0..<LENGTH('w) - 1]
      = filter (\<lambda>i. bit b (Suc i)) [0..<LENGTH('w)]"
  proof -
    have "\<not> bit b (Suc (LENGTH('w) - 1))"
      using bit_imp_le_length [of b "Suc (LENGTH('w) - 1)"] by auto
    then have "filter (\<lambda>i. bit b (Suc i)) [0..<Suc (LENGTH('w) - 1)]
        = filter (\<lambda>i. bit b (Suc i)) [0..<LENGTH('w) - 1]"
      by (simp only: upt_Suc filter_append) simp
    then show ?thesis by simp
  qed
  also have "\<dots> = componentIds (drop_bit 1 b)"
    by (simp add: componentIds_def bit_drop_bit_eq comp_def)
  finally show ?thesis .
qed

lemma componentIds_0 [simp]: "componentIds (0 :: 'w::len word) = []"
  by (simp add: componentIds_def)

lemma EachComponent_eachOf_shift:
  "EachComponent b c lambda s = eachOf (map ((+) c) (componentIds b)) lambda s"
proof (induction b c lambda s rule: EachComponent.induct)
  case (1 b c lambda s)
  have shift: "map ((+) c) (map Suc xs) = map ((+) (c + 1)) xs" for xs
    by simp
  show ?case
  proof (cases "drop_bit 1 b = 0")
    case True
    then have ids: "componentIds b = (if bit b 0 then [0] else [])"
      using componentIds_step [of b] by simp
    show ?thesis
      by (subst EachComponent.simps)
         (auto simp: True ids one_and_neq_0_iff simp del: One_nat_def split: bind_splits)
  next
    case False
    have ids: "map ((+) c) (componentIds b)
        = (if bit b 0 then [c] else []) @ map ((+) (c + 1)) (componentIds (drop_bit 1 b))"
      by (subst componentIds_step) (simp del: One_nat_def)
    show ?thesis
    proof (cases "bit b 0")
      case True
      show ?thesis
      proof (cases "lambda c s")
        case None
        with True show ?thesis
          by (subst EachComponent.simps) (simp add: ids one_and_neq_0_iff del: One_nat_def)
      next
        case (Some s')
        from "1.IH" [of s'] Some True False
        have "EachComponent (drop_bit 1 b) (c + 1) lambda s'
            = eachOf (map ((+) (c + 1)) (componentIds (drop_bit 1 b))) lambda s'"
          by (simp add: one_and_neq_0_iff del: One_nat_def)
        with True Some False show ?thesis
          by (subst EachComponent.simps) (simp add: ids one_and_neq_0_iff del: One_nat_def)
      qed
    next
      case nb: False
      from "1.IH" [of s] nb False
      have "EachComponent (drop_bit 1 b) (c + 1) lambda s
          = eachOf (map ((+) (c + 1)) (componentIds (drop_bit 1 b))) lambda s"
        by (simp add: one_and_neq_0_iff del: One_nat_def)
      with nb False show ?thesis
        by (subst EachComponent.simps) (simp add: ids one_and_neq_0_iff del: One_nat_def)
    qed
  qed
qed

lemma EachComponent_eachOf:
  "EachComponent b 0 lambda s = eachOf (componentIds b) lambda s"
proof -
  have "(+) (0 :: nat) = (\<lambda>x. x)" by (rule ext) simp
  then show ?thesis by (simp add: EachComponent_eachOf_shift)
qed

lemma componentIds_less: "c \<in> set (componentIds (b :: 'w::len word)) \<Longrightarrow> c < LENGTH('w)"
  by (simp add: componentIds_def)

lemma componentIds_bit: "c \<in> set (componentIds b) \<longleftrightarrow> bit b c"
  by (auto simp: componentIds_def dest: bit_imp_le_length)

lemma distinct_componentIds [simp]: "distinct (componentIds b)"
  by (simp add: componentIds_def)

section \<open>The lookup cache\<close>

lemma ctor_lambda_total:
  assumes "\<forall>c\<in>set cs. c < length ii"
  shows "\<exists>ii' cnt'. eachOf cs
      (\<lambda>componentId (ii, localComponentCount :: 8 word). do {
          ii' \<leftarrow> store ii componentId localComponentCount;
          Some (ii', localComponentCount + 1) }) (ii, cnt) = Some (ii', cnt')
    \<and> length ii' = length ii"
  using assms
proof (induction cs arbitrary: ii cnt)
  case Nil
  then show ?case by simp
next
  case (Cons c cs)
  from Cons.prems have "\<forall>x\<in>set cs. x < length (ii[c := cnt])" by simp
  from Cons.IH [OF this, of "cnt + 1"] Cons.prems show ?case
    by (simp add: store_def)
qed

lemma ArchetypeManager_ctor_total:
  "\<exists>m. ArchetypeManager_ctor (b :: 'w::len word) = Some (m :: ('w, 'v) ArchetypeManager)"
proof -
  have "\<forall>c\<in>set (componentIds b). c < length (Unused # replicate (LENGTH('w) - 1) 0)"
    by (auto dest: componentIds_less)
  from ctor_lambda_total [OF this, of 0] show ?thesis
    by (auto simp: ArchetypeManager_ctor_def EachComponent_eachOf)
qed

lemma Find_scan_None_iff:
  "Find_scan b ms k = None \<longleftrightarrow> b \<notin> id_arch ` set ms"
  by (induction ms arbitrary: k) auto

lemma Find_managers:
  assumes "Find b w = Some (i, w')"
  shows "\<exists>ms. managers w' = managers w @ ms"
  using assms by (auto simp: Find_def split: option.splits bind_splits)

lemma Update_loop_eq:
  assumes "all = pre @ ms" and "lastIndexChecked c = length pre"
  shows "Update_loop Q ms c
    = \<lparr>lastIndexChecked = length all,
       matchedIndices = matchedIndices c
         @ map of_nat (filter (\<lambda>i. Contains (all ! i) Q) [length pre..<length all])\<rparr>"
  using assms
proof (induction ms arbitrary: pre c)
  case Nil
  then show ?case by simp
next
  case (Cons m ms)
  let ?c = "c\<lparr>matchedIndices :=
            (if Contains m Q then matchedIndices c @ [of_nat (lastIndexChecked c)]
             else matchedIndices c),
          lastIndexChecked := lastIndexChecked c + 1\<rparr>"
  from Cons.prems have a: "all = (pre @ [m]) @ ms" and b: "lastIndexChecked ?c = length (pre @ [m])"
    by simp_all
  have lt: "length pre < length all" using Cons.prems by simp
  have nth: "all ! length pre = m" using Cons.prems by simp
  have upt: "[length pre..<length all] = length pre # [length (pre @ [m])..<length all]"
    using lt by (simp add: upt_conv_Cons)
  show ?case
    unfolding Update_loop.simps Cons.IH [OF a b] upt
    using Cons.prems(2) by (simp add: nth)
qed

lemma Update_eq:
  assumes "lastIndexChecked c \<le> length ms"
  shows "Update Q ms c
    = \<lparr>lastIndexChecked = length ms,
       matchedIndices = matchedIndices c
         @ map of_nat (filter (\<lambda>i. Contains (ms ! i) Q) [lastIndexChecked c..<length ms])\<rparr>"
proof (cases "lastIndexChecked c < length ms")
  case True
  have "ms = take (lastIndexChecked c) ms @ drop (lastIndexChecked c) ms" by simp
  moreover have "lastIndexChecked c = length (take (lastIndexChecked c) ms)"
    using assms by simp
  ultimately have "Update_loop Q (drop (lastIndexChecked c) ms) c
    = \<lparr>lastIndexChecked = length ms,
       matchedIndices = matchedIndices c
         @ map of_nat (filter (\<lambda>i. Contains (ms ! i) Q)
             [length (take (lastIndexChecked c) ms)..<length ms])\<rparr>"
    by (rule Update_loop_eq)
  with True assms show ?thesis by (simp add: Update_def min_absorb2)
next
  case False
  with assms have "lastIndexChecked c = length ms" by simp
  with False show ?thesis by (simp add: Update_def)
qed

lemma Update_new_blocks_only:
  assumes "drop (lastIndexChecked c) ms = drop (lastIndexChecked c) ms'"
  shows "Update Q ms c = Update Q ms' c"
proof -
  from assms have "length ms - lastIndexChecked c = length ms' - lastIndexChecked c"
    by (metis length_drop)
  then have "lastIndexChecked c < length ms \<longleftrightarrow> lastIndexChecked c < length ms'"
    by arith
  with assms show ?thesis by (simp add: Update_def)
qed

lemma cacheInv_step:
  assumes "cacheStep Q e s = Some s'" and "cacheInv Q s"
  shows "cacheInv Q s'"
proof (cases s)
  case (Pair w c)
  show ?thesis
  proof (cases e)
    case (FindBlock b)
    with assms(1) Pair obtain i w' where f: "Find b w = Some (i, w')" and s': "s' = (w', c)"
      by (auto split: bind_splits)
    from Find_managers [OF f] obtain ms where ms: "managers w' = managers w @ ms" ..
    have "filter (\<lambda>i. Contains ((managers w @ ms) ! i) Q) [0..<lastIndexChecked c]
        = filter (\<lambda>i. Contains (managers w ! i) Q) [0..<lastIndexChecked c]"
      using assms(2) Pair by (intro filter_cong) (auto simp: cacheInv_def nth_append)
    with assms(2) Pair show ?thesis
      by (simp add: cacheInv_def s' ms)
  next
    case UpdateCache
    with assms(1) Pair have s': "s' = (w, Update Q (managers w) c)" by simp
    from assms(2) Pair have le: "lastIndexChecked c \<le> length (managers w)"
      and m: "matchedIndices c = map of_nat (filter (\<lambda>i. Contains (managers w ! i) Q)
                [0..<lastIndexChecked c])"
      by (simp_all add: cacheInv_def)
    have "[0..<length (managers w)]
        = [0..<lastIndexChecked c] @ [lastIndexChecked c..<length (managers w)]"
      using le by (metis le_add_diff_inverse upt_add_eq_append zero_le)
    then show ?thesis
      unfolding s' cacheInv_def Update_eq [OF le] using m by simp
  qed
qed

lemma cacheInv_run:
  assumes "cacheRun Q es s = Some s'" and "cacheInv Q s"
  shows "cacheInv Q s'"
  using assms
proof (induction es arbitrary: s)
  case Nil
  then show ?case by simp
next
  case (Cons e es)
  from Cons.prems(1) obtain s1 where "cacheStep Q e s = Some s1" "cacheRun Q es s1 = Some s'"
    by (auto split: bind_splits)
  with Cons.IH cacheInv_step Cons.prems(2) show ?case by blast
qed

lemma cacheRun_append:
  "cacheRun Q (es @ es') s = Option.bind (cacheRun Q es s) (cacheRun Q es')"
  by (induction es arbitrary: s) (auto split: bind_splits)

lemma map_unat_of_nat:
  assumes "\<forall>x\<in>set xs. x < 65536"
  shows "map unat (map of_nat xs :: Index list) = xs"
  using assms by (induction xs) (simp_all add: unat_of_nat)

lemma threeBlockWorld_history:
  "cacheRun 1 ([FindBlock 3, FindBlock 2, UpdateCache, FindBlock 1] @ [UpdateCache])
     (emptyWorld, emptyCache)
   = Some (threeBlockWorld, \<lparr>lastIndexChecked = 3, matchedIndices = [0, 2]\<rparr>)"
  by code_simp

lemma cacheRun_FindBlocks:
  assumes "distinct bs" and "set bs \<inter> id_arch ` set (managers w) = {}"
  shows "\<exists>ms. cacheRun Q (map FindBlock bs) (w, c) = Some (w\<lparr>managers := managers w @ ms\<rparr>, c)
           \<and> map id_arch ms = bs"
  using assms
proof (induction bs arbitrary: w)
  case Nil
  then show ?case by simp
next
  case (Cons b bs)
  from Cons.prems have "Find_scan b (managers w) 0 = None"
    by (simp add: Find_scan_None_iff)
  moreover obtain m :: "('a, 'b) ArchetypeManager" where m: "ArchetypeManager_ctor b = Some m"
    using ArchetypeManager_ctor_total by blast
  ultimately have f: "Find b w
      = Some (length (managers w), w\<lparr>managers := managers w @ [m]\<rparr>)"
    by (simp add: Find_def)
  let ?w = "w\<lparr>managers := managers w @ [m]\<rparr>"
  have idm: "id_arch m = b" using m by (rule ArchetypeManager_ctor_id)
  from Cons.prems idm have "distinct bs" "set bs \<inter> id_arch ` set (managers ?w) = {}"
    by auto
  from Cons.IH [OF this] obtain ms where
    ms: "cacheRun Q (map FindBlock bs) (?w, c) = Some (?w\<lparr>managers := managers ?w @ ms\<rparr>, c)"
        "map id_arch ms = bs"
    by blast
  have "cacheRun Q (map FindBlock (b # bs)) (w, c)
      = Some (w\<lparr>managers := managers w @ (m # ms)\<rparr>, c)"
    using f ms(1) by simp
  with ms(2) idm show ?case
    by (intro exI [of _ "m # ms"]) simp
qed

lemma distinct_manySignatures:
  assumes "n \<le> 65537"
  shows "distinct (manySignatures n)"
proof -
  have "inj_on (\<lambda>i. of_nat (2 * i + 1) :: 64 word) (set [0..<n])"
  proof (rule inj_onI)
    fix x y assume x: "x \<in> set [0..<n]" and y: "y \<in> set [0..<n]"
      and eq: "(of_nat (2 * x + 1) :: 64 word) = of_nat (2 * y + 1)"
    have u: "unat (of_nat k :: 64 word) = k" if "k < 2 ^ 64" for k
      using that by (simp add: unat_of_nat)
    from x y assms have lt: "2 * x + 1 < 2 ^ 64" "2 * y + 1 < 2 ^ 64" by simp_all
    have "unat (of_nat (2 * x + 1) :: 64 word) = 2 * x + 1"
      "unat (of_nat (2 * y + 1) :: 64 word) = 2 * y + 1"
      using u [OF lt(1)] u [OF lt(2)] by blast+
    with eq show "x = y" by (simp del: of_nat_add of_nat_mult of_nat_Suc)
  qed
  then show ?thesis
    by (simp add: manySignatures_def distinct_map)
qed

lemma Contains_odd:
  assumes "id_arch m = of_nat (2 * i + 1)"
  shows "Contains m 1"
proof -
  have "odd (of_nat (2 * i + 1) :: 'a word)"
    by simp
  then have "of_nat (2 * i + 1) AND (1 :: 'a word) = 1"
    unfolding and_one_eq odd_iff_mod_2_eq_one .
  with assms show ?thesis
    by (simp only: Contains_def)
qed

text \<open>
  Claim C4, as the code has it.  \<open>matchedIndices\<close> is a vector of \<open>uint16_t\<close>, so the
  statement holds while there are at most 65536 blocks.  After every history of block
  creations and updates that ends with an update, the cache lists exactly the indices
  of the blocks whose signature contains \<open>Q\<close>, in ascending order (the order of
  creation), each once, and its cursor is at the number of blocks.  An update depends
  only on the blocks at and beyond the cursor, that is, on the blocks created since the
  previous update, and it keeps the entries cached so far and appends the matches among
  those blocks.
\<close>

theorem lookup_cache_exact:
  fixes w :: "('w::len, 'v) World"
  assumes run: "cacheRun Q (es @ [UpdateCache]) (emptyWorld, emptyCache) = Some (w, c)"
    and few: "length (managers w) \<le> 65536"
  shows "map unat (matchedIndices c)
           = filter (\<lambda>i. Contains (managers w ! i) Q) [0..<length (managers w)]
     \<and> sorted_wrt (<) (map unat (matchedIndices c))
     \<and> lastIndexChecked c = length (managers w)
     \<and> (\<forall>c0 (ms :: ('w, 'v) ArchetypeManager list) ms'.
          drop (lastIndexChecked c0) ms = drop (lastIndexChecked c0) ms'
          \<longrightarrow> Update Q ms c0 = Update Q ms' c0)
     \<and> (\<forall>c0 (ms :: ('w, 'v) ArchetypeManager list).
          lastIndexChecked c0 \<le> length ms
          \<longrightarrow> matchedIndices (Update Q ms c0)
              = matchedIndices c0
                @ map of_nat (filter (\<lambda>i. Contains (ms ! i) Q)
                                [lastIndexChecked c0..<length ms]))"
proof -
  from run obtain s1 where s1: "cacheRun Q es (emptyWorld, emptyCache) = Some s1"
    and last: "cacheStep Q UpdateCache s1 = Some (w, c)"
    by (auto simp: cacheRun_append split: bind_splits)
  have "cacheInv Q (emptyWorld :: ('w, 'v) World, emptyCache)"
    by (simp add: cacheInv_def emptyWorld_def emptyCache_def)
  with s1 have inv1: "cacheInv Q s1" by (rule cacheInv_run)
  from last have inv: "cacheInv Q (w, c)"
    using cacheInv_step [OF _ inv1] by blast
  obtain c1 where s1_eq: "s1 = (w, c1)" and c: "c = Update Q (managers w) c1"
    using last by (cases s1) auto
  from inv1 s1_eq have "lastIndexChecked c1 \<le> length (managers w)"
    by (simp add: cacheInv_def)
  then have cur: "lastIndexChecked c = length (managers w)"
    unfolding c by (simp add: Update_eq)
  from inv cur have m: "matchedIndices c
      = map of_nat (filter (\<lambda>i. Contains (managers w ! i) Q) [0..<length (managers w)])"
    by (simp add: cacheInv_def)
  have "\<forall>x\<in>set (filter (\<lambda>i. Contains (managers w ! i) Q) [0..<length (managers w)]).
      x < 65536"
    using few by auto
  then have exact: "map unat (matchedIndices c)
      = filter (\<lambda>i. Contains (managers w ! i) Q) [0..<length (managers w)]"
    unfolding m by (rule map_unat_of_nat)
  have "sorted_wrt (<) (filter (\<lambda>i. Contains (managers w ! i) Q) [0..<length (managers w)])"
    by (rule sorted_wrt_filter) (rule sorted_wrt_upt)
  with exact have sorted: "sorted_wrt (<) (map unat (matchedIndices c))" by simp
  from exact sorted cur show ?thesis
    by (auto simp: Update_eq intro: Update_new_blocks_only)
qed

theorem lookup_cache_exact_witness:
  "cacheRun 1 ([FindBlock 3, FindBlock 2, UpdateCache, FindBlock 1] @ [UpdateCache])
     (emptyWorld, emptyCache)
     = Some (threeBlockWorld, \<lparr>lastIndexChecked = 3, matchedIndices = [0, 2]\<rparr>)
   \<and> length (managers threeBlockWorld) \<le> 65536
   \<and> map unat [0, 2 :: Index]
       = filter (\<lambda>i. Contains (managers threeBlockWorld ! i) 1)
           [0..<length (managers threeBlockWorld)]
   \<and> filter (\<lambda>i. Contains (managers threeBlockWorld ! i) 1)
           [0..<length (managers threeBlockWorld)] = [0, 2]"
proof -
  have few: "length (managers threeBlockWorld) \<le> 65536"
    by (simp add: threeBlockWorld_def)
  have "map unat [0, 2 :: Index] = [0, 2]" by simp
  with lookup_cache_exact [OF threeBlockWorld_history few] threeBlockWorld_history few
  show ?thesis by simp
qed

text \<open>
  The claim as stated, for any number of blocks, fails with the 65537th block: in the
  history that creates the blocks with the signatures 1, 3, 5, ..., 131073 and then
  updates the cache for the key 1, every block matches, and the index 65536 of the last
  block is recorded as 0, so that the list names block 0 twice and block 65536 never.
\<close>

theorem lookup_cache_wraps_counterexample:
  "map_option
     (\<lambda>(w, c). (length (managers w), lastIndexChecked c,
                take 2 (matchedIndices c), drop 65535 (matchedIndices c)))
     (cacheRun 1 manyBlocksHistory (emptyWorld :: (64, nat) World, emptyCache))
   = Some (65537, 65537, [0, 1], [65535, 0])"
proof -
  let ?w0 = "emptyWorld :: (64, nat) World"
  have "distinct (manySignatures 65537)"
    by (rule distinct_manySignatures) simp
  moreover have "set (manySignatures 65537) \<inter> id_arch ` set (managers ?w0) = {}"
    by (simp add: emptyWorld_def)
  ultimately obtain ms where
    run: "cacheRun 1 (map FindBlock (manySignatures 65537)) (?w0, emptyCache)
            = Some (?w0\<lparr>managers := managers ?w0 @ ms\<rparr>, emptyCache)"
    and ids: "map id_arch ms = manySignatures 65537"
    using cacheRun_FindBlocks [of "manySignatures 65537" ?w0 1 emptyCache] by blast
  have w: "?w0\<lparr>managers := managers ?w0 @ ms\<rparr> = ?w0\<lparr>managers := ms\<rparr>"
    by (simp add: emptyWorld_def)
  from ids have len: "length ms = 65537"
    by (metis length_map manySignatures_def length_upt diff_zero)
  have "Contains (ms ! i) 1" if "i < 65537" for i
  proof -
    from that len have "id_arch (ms ! i) = manySignatures 65537 ! i"
      using ids by (metis nth_map)
    also from that have "\<dots> = of_nat (2 * i + 1)"
      by (simp add: manySignatures_def)
    finally show ?thesis by (rule Contains_odd)
  qed
  then have all: "filter (\<lambda>i. Contains (ms ! i) 1) [0..<65537] = [0..<65537]"
    by (intro filter_True) simp
  have upd: "Update 1 ms emptyCache
      = \<lparr>lastIndexChecked = 65537, matchedIndices = map of_nat [0..<65537]\<rparr>"
    using Update_eq [of emptyCache ms 1] all by (simp add: emptyCache_def len)
  have final: "cacheRun 1 manyBlocksHistory (?w0, emptyCache)
      = Some (?w0\<lparr>managers := ms\<rparr>,
              \<lparr>lastIndexChecked = 65537, matchedIndices = map of_nat [0..<65537]\<rparr>)"
    unfolding manyBlocksHistory_def cacheRun_append run w by (simp add: upd)
  have "take 2 [0..<65537] = [0..<0 + 2]"
    by (rule take_upt) simp
  also have "\<dots> = [0, Suc 0]"
    by (simp add: upt_conv_Cons)
  finally have t: "take 2 (map of_nat [0..<65537] :: Index list) = [0, 1]"
    unfolding take_map by simp
  have "drop 65535 [0..<65537] = [0 + 65535..<65537]"
    by (rule drop_upt)
  also have "\<dots> = [65535, 65536]"
    by (simp add: upt_conv_Cons)
  finally have d: "drop 65535 (map of_nat [0..<65537] :: Index list) = [65535, 0]"
    unfolding drop_map by simp
  have proj: "map_option
     (\<lambda>(w, c). (length (managers w), lastIndexChecked c,
                take 2 (matchedIndices c), drop 65535 (matchedIndices c)))
     (Some (W, \<lparr>lastIndexChecked = n, matchedIndices = xs\<rparr>))
     = Some (length (managers W), n, take 2 xs, drop 65535 xs)"
    for W :: "(64, nat) World" and n xs
    by simp
  have sel: "length (managers (?w0\<lparr>managers := ms\<rparr>)) = 65537"
    by (simp add: len)
  show ?thesis
    unfolding final proj t d sel ..
qed

section \<open>Swap-removal\<close>

lemma MoveElement_same_column:
  assumes "j < length arrays" and "dst < length (arrays ! j)" and "src < length (arrays ! j)"
  shows "MoveElement T arrays j dst j src
    = Some (arrays[j := (arrays ! j)[dst := arrays ! j ! src,
                                     src := movedFrom T (arrays ! j ! src)]])"
  using assms by (simp add: MoveElement_def load_def store_def)

lemma moveLastRow_columns:
  assumes "distinct (map (\<lambda>c. internalIndex m ! c) cs)"
    and "\<forall>c\<in>set cs. c < length (internalIndex m)
           \<and> unat (internalIndex m ! c) < length arrays
           \<and> unat rw < length (arrays ! unat (internalIndex m ! c))
           \<and> unat lastRow < length (arrays ! unat (internalIndex m ! c))"
  shows "\<exists>arrays'. eachOf cs (moveLastRow ops m rw lastRow) arrays = Some arrays'
     \<and> length arrays' = length arrays
     \<and> (\<forall>c\<in>set cs. arrays' ! unat (internalIndex m ! c)
           = (arrays ! unat (internalIndex m ! c))
               [unat rw := arrays ! unat (internalIndex m ! c) ! unat lastRow,
                unat lastRow := movedFrom (ops c)
                                  (arrays ! unat (internalIndex m ! c) ! unat lastRow)])
     \<and> (\<forall>j. j \<notin> (\<lambda>c. unat (internalIndex m ! c)) ` set cs \<longrightarrow> arrays' ! j = arrays ! j)"
  using assms
proof (induction cs arbitrary: arrays)
  case Nil
  then show ?case by simp
next
  case (Cons c cs)
  let ?j = "unat (internalIndex m ! c)"
  let ?col = "(arrays ! ?j)[unat rw := arrays ! ?j ! unat lastRow,
                            unat lastRow := movedFrom (ops c) (arrays ! ?j ! unat lastRow)]"
  let ?arrays = "arrays[?j := ?col]"
  from Cons.prems(2) have c: "c < length (internalIndex m)" "?j < length arrays"
    "unat rw < length (arrays ! ?j)" "unat lastRow < length (arrays ! ?j)"
    by simp_all
  have step: "moveLastRow ops m rw lastRow c arrays = Some ?arrays"
    using c by (simp add: moveLastRow_def load_def MoveElement_same_column)
  from Cons.prems(1) have d: "distinct (map (\<lambda>c. internalIndex m ! c) cs)"
    and notin: "\<forall>x\<in>set cs. internalIndex m ! x \<noteq> internalIndex m ! c"
    by (auto simp: image_iff)
  then have other: "\<forall>x\<in>set cs. unat (internalIndex m ! x) \<noteq> ?j"
    by (simp add: word_unat_eq_iff)
  then have other': "\<forall>x\<in>set cs. ?j \<noteq> unat (internalIndex m ! x)"
    by metis
  have pre: "\<forall>x\<in>set cs. x < length (internalIndex m)
           \<and> unat (internalIndex m ! x) < length ?arrays
           \<and> unat rw < length (?arrays ! unat (internalIndex m ! x))
           \<and> unat lastRow < length (?arrays ! unat (internalIndex m ! x))"
    using Cons.prems(2) other other' by auto
  from Cons.IH [OF d pre] obtain arrays' where
    r: "eachOf cs (moveLastRow ops m rw lastRow) ?arrays = Some arrays'"
    and l: "length arrays' = length ?arrays"
    and cols: "\<forall>x\<in>set cs. arrays' ! unat (internalIndex m ! x)
           = (?arrays ! unat (internalIndex m ! x))
               [unat rw := ?arrays ! unat (internalIndex m ! x) ! unat lastRow,
                unat lastRow := movedFrom (ops x)
                                  (?arrays ! unat (internalIndex m ! x) ! unat lastRow)]"
    and rest: "\<forall>j. j \<notin> (\<lambda>c. unat (internalIndex m ! c)) ` set cs \<longrightarrow> arrays' ! j = ?arrays ! j"
    by blast
  have run: "eachOf (c # cs) (moveLastRow ops m rw lastRow) arrays = Some arrays'"
    using step r by simp
  have "?j \<notin> (\<lambda>c. unat (internalIndex m ! c)) ` set cs"
    using other' by blast
  with rest have "arrays' ! ?j = ?arrays ! ?j"
    by blast
  with c(2) have here: "arrays' ! ?j = ?col"
    by simp
  have there: "\<forall>x\<in>set cs. arrays' ! unat (internalIndex m ! x)
           = (arrays ! unat (internalIndex m ! x))
               [unat rw := arrays ! unat (internalIndex m ! x) ! unat lastRow,
                unat lastRow := movedFrom (ops x)
                                  (arrays ! unat (internalIndex m ! x) ! unat lastRow)]"
    using cols other other' by auto
  have outside: "\<forall>j. j \<notin> (\<lambda>c. unat (internalIndex m ! c)) ` set (c # cs)
      \<longrightarrow> arrays' ! j = arrays ! j"
    using rest by simp
  from run l here there outside show ?case
    by (intro exI [of _ arrays']) simp
qed

lemma those_map_Some:
  assumes "\<forall>x\<in>set xs. f x = Some (g x)"
  shows "those (map f xs) = Some (map g xs)"
  using assms by (induction xs) simp_all

lemma Access_live:
  assumes "recordIndex h \<noteq> InvalidIndex"
    and "load (records w) (unat (recordIndex h)) = Some entry"
    and "version entry = version_ref h"
    and "load (managers w) (unat (archetype entry)) = Some m"
    and "\<forall>c\<in>set Components. c < length (internalIndex m) \<and> internalIndex m ! c \<noteq> Unused
           \<and> unat (internalIndex m ! c) < length (componentArrays m)"
  shows "Access h Components w
    = Some (True, Some (map (\<lambda>c. Element (unat (archetype entry))
                                   (unat (internalIndex m ! c)) (unat (row entry)))
                            Components))"
proof -
  have "\<forall>c\<in>set Components. GetComponent (unat (archetype entry)) m c (row entry)
      = Some (Element (unat (archetype entry)) (unat (internalIndex m ! c)) (unat (row entry)))"
    using assms(5) by (simp add: GetComponent_def load_def)
  then have "those (map (\<lambda>T. GetComponent (unat (archetype entry)) m T (row entry)) Components)
      = Some (map (\<lambda>c. Element (unat (archetype entry))
                          (unat (internalIndex m ! c)) (unat (row entry))) Components)"
    by (rule those_map_Some)
  with assms(1-4) show ?thesis
    by (simp add: Access_def)
qed

lemma deref_Element:
  assumes "load (managers w) a = Some m" and "j < length (componentArrays m)"
    and "r < length (componentArrays m ! j)"
  shows "deref w (Element a j r) = Some (componentArrays m ! j ! r)"
  using assms by (simp add: deref_def load_def)

lemma blockLayout_component:
  assumes "blockLayout m" and "c \<in> set (componentIds (id_arch m))"
  shows "c < length (internalIndex m)" and "internalIndex m ! c \<noteq> Unused"
    and "unat (internalIndex m ! c) < length (componentArrays m)"
    and "unat (size_arch m) \<le> length (componentArrays m ! unat (internalIndex m ! c))"
  using assms componentIds_less [of c "id_arch m"]
  by (auto simp: blockLayout_def list_all_iff)

lemma Release_total:
  fixes i :: Index
  assumes "unat i < length (records w)"
  shows "\<exists>w1. Release (unat i) w = Some w1 \<and> managers w1 = managers w
     \<and> length (records w1) = length (records w)
     \<and> invalidRecord w1 = invalidRecord w
     \<and> records w1 ! unat i
         = \<lparr>archetype = InvalidIndex, row = InvalidIndex,
            version = version (records w ! unat i) + 1\<rparr>
     \<and> (\<forall>j. j \<noteq> unat i \<longrightarrow> records w1 ! j = records w ! j)"
proof -
  have small: "unat i < 2 ^ 16"
    using unsigned_less [of i, where 'a = nat] by simp
  show ?thesis
    unfolding Release_eq [OF assms small] Let_def using assms by simp
qed

lemma RemoveRow_swap:
  fixes w :: "('w::len, 'v) World"
  assumes m: "load (managers w) a = Some m"
    and lay: "blockLayout m"
    and rw: "unat rw < unat (size_arch m) - 1"
    and released: "unat (recordIndices m ! unat rw) < length (records w)"
    and moved: "unat (recordIndices m ! (unat (size_arch m) - 1)) < length (records w)"
  shows "\<exists>arrays w1.
      Release (unat (recordIndices m ! unat rw)) w = Some w1
    \<and> RemoveRow ops a rw w
        = Some (w1\<lparr>records := (records w1)
                   [unat (recordIndices m ! (unat (size_arch m) - 1))
                      := (records w1 ! unat (recordIndices m ! (unat (size_arch m) - 1)))
                           \<lparr>row := rw\<rparr>],
                 managers := (managers w)
                   [a := m\<lparr>size_arch := size_arch m - 1, componentArrays := arrays,
                          recordIndices := (recordIndices m)
                            [unat rw := recordIndices m ! (unat (size_arch m) - 1)]\<rparr>]\<rparr>)
    \<and> length arrays = length (componentArrays m)
    \<and> (\<forall>c\<in>set (componentIds (id_arch m)).
          arrays ! unat (internalIndex m ! c)
            = (componentArrays m ! unat (internalIndex m ! c))
                [unat rw := componentArrays m ! unat (internalIndex m ! c)
                              ! (unat (size_arch m) - 1),
                 unat (size_arch m) - 1
                   := movedFrom (ops c)
                        (componentArrays m ! unat (internalIndex m ! c)
                           ! (unat (size_arch m) - 1))])"
proof -
  let ?s = "size_arch m"
  let ?m1 = "m\<lparr>size_arch := ?s - 1\<rparr>"
  from rw have nz: "?s \<noteq> 0"
    by (auto simp: unat_eq_0)
  then have last: "unat (?s - 1) = unat ?s - 1"
    by (simp add: unat_minus_one)
  from rw last have ne: "rw \<noteq> ?s - 1"
    by auto
  from lay have len_ri: "unat ?s \<le> length (recordIndices m)"
    by (simp add: blockLayout_def)
  have cols: "\<forall>c\<in>set (componentIds (id_arch m)). c < length (internalIndex ?m1)
           \<and> unat (internalIndex ?m1 ! c) < length (componentArrays m)
           \<and> unat rw < length (componentArrays m ! unat (internalIndex ?m1 ! c))
           \<and> unat (?s - 1) < length (componentArrays m ! unat (internalIndex ?m1 ! c))"
  proof
    fix c assume c: "c \<in> set (componentIds (id_arch m))"
    from blockLayout_component [OF lay c] rw last
    show "c < length (internalIndex ?m1)
           \<and> unat (internalIndex ?m1 ! c) < length (componentArrays m)
           \<and> unat rw < length (componentArrays m ! unat (internalIndex ?m1 ! c))
           \<and> unat (?s - 1) < length (componentArrays m ! unat (internalIndex ?m1 ! c))"
      by simp arith
  qed
  from lay have dist: "distinct (map (\<lambda>c. internalIndex ?m1 ! c) (componentIds (id_arch m)))"
    by (simp add: blockLayout_def)
  from moveLastRow_columns [OF dist cols, of ops] obtain arrays where
    run: "eachOf (componentIds (id_arch m)) (moveLastRow ops ?m1 rw (?s - 1)) (componentArrays m)
            = Some arrays"
    and la: "length arrays = length (componentArrays m)"
    and moved_cols: "\<forall>c\<in>set (componentIds (id_arch m)).
          arrays ! unat (internalIndex ?m1 ! c)
            = (componentArrays m ! unat (internalIndex ?m1 ! c))
                [unat rw := componentArrays m ! unat (internalIndex ?m1 ! c) ! unat (?s - 1),
                 unat (?s - 1)
                   := movedFrom (ops c)
                        (componentArrays m ! unat (internalIndex ?m1 ! c) ! unat (?s - 1))]"
    by blast
  from Release_total [OF released] obtain w1 where
    rel: "Release (unat (recordIndices m ! unat rw)) w = Some w1"
    and w1: "managers w1 = managers w" "length (records w1) = length (records w)"
    by blast
  have l1: "load (recordIndices m) (unat rw) = Some (recordIndices m ! unat rw)"
    using rw len_ri by (simp add: load_def)
  have l2: "load (recordIndices m) (unat ?s - 1) = Some (recordIndices m ! (unat ?s - 1))"
    using rw len_ri by (simp add: load_def)
  have l3: "load (records w1) (unat (recordIndices m ! (unat ?s - 1)))
      = Some (records w1 ! unat (recordIndices m ! (unat ?s - 1)))"
    using moved w1 by (simp add: load_def)
  have st: "store (recordIndices m) (unat rw) (recordIndices m ! (unat ?s - 1))
      = Some ((recordIndices m)[unat rw := recordIndices m ! (unat ?s - 1)])"
    using rw len_ri by (simp add: store_def)
  have "RemoveRow ops a rw w
        = Some (w1\<lparr>records := (records w1)
                   [unat (recordIndices m ! (unat ?s - 1))
                      := (records w1 ! unat (recordIndices m ! (unat ?s - 1)))\<lparr>row := rw\<rparr>],
                 managers := (managers w)
                   [a := m\<lparr>size_arch := ?s - 1, componentArrays := arrays,
                          recordIndices := (recordIndices m)
                            [unat rw := recordIndices m ! (unat ?s - 1)]\<rparr>]\<rparr>)"
    unfolding RemoveRow_def
    using m nz ne run rel
    by (simp add: Let_def EachComponent_eachOf last l1 l2 l3 st w1 del: One_nat_def)
  with rel la moved_cols show ?thesis
    unfolding last by (intro exI [of _ arrays] exI [of _ w1]) simp
qed

lemma storedD:
  assumes "stored w a h r" and "load (managers w) a = Some m"
  shows "recordIndex h \<noteq> InvalidIndex"
    and "unat (recordIndex h) < length (records w)"
    and "unat (archetype (records w ! unat (recordIndex h))) = a"
    and "row (records w ! unat (recordIndex h)) = r"
    and "version (records w ! unat (recordIndex h)) = version_ref h"
    and "r < size_arch m"
    and "unat r < length (recordIndices m)"
    and "recordIndices m ! unat r = recordIndex h"
  using assms
  by (auto simp: stored_def load_def split: option.splits if_splits)

lemma storedI:
  assumes "load (managers w) a = Some m"
    and "recordIndex h \<noteq> InvalidIndex"
    and "unat (recordIndex h) < length (records w)"
    and "unat (archetype (records w ! unat (recordIndex h))) = a"
    and "row (records w ! unat (recordIndex h)) = r"
    and "version (records w ! unat (recordIndex h)) = version_ref h"
    and "r < size_arch m"
    and "unat r < length (recordIndices m)"
    and "recordIndices m ! unat r = recordIndex h"
  shows "stored w a h r"
  using assms by (simp add: stored_def load_def)

lemma Access_row:
  fixes w :: "('w::len, 'v) World"
  assumes m: "load (managers w) a = Some m"
    and idx: "recordIndex h \<noteq> InvalidIndex" "unat (recordIndex h) < length (records w)"
    and entry: "unat (archetype (records w ! unat (recordIndex h))) = a"
      "row (records w ! unat (recordIndex h)) = r"
      "version (records w ! unat (recordIndex h)) = version_ref h"
    and cols: "\<forall>c\<in>set Components. c < length (internalIndex m)
        \<and> internalIndex m ! c \<noteq> Unused
        \<and> unat (internalIndex m ! c) < length (componentArrays m)
        \<and> unat r < length (componentArrays m ! unat (internalIndex m ! c))"
  shows "Access h Components w
      = Some (True, Some (map (\<lambda>c. Element a (unat (internalIndex m ! c)) (unat r)) Components))"
    and "map (deref w) (map (\<lambda>c. Element a (unat (internalIndex m ! c)) (unat r)) Components)
      = map (\<lambda>c. Some (componentArrays m ! unat (internalIndex m ! c) ! unat r)) Components"
proof -
  let ?e = "records w ! unat (recordIndex h)"
  have l: "load (records w) (unat (recordIndex h)) = Some ?e"
    using idx(2) by (simp add: load_def)
  have m': "load (managers w) (unat (archetype ?e)) = Some m"
    using m entry(1) by simp
  have c': "\<forall>c\<in>set Components. c < length (internalIndex m) \<and> internalIndex m ! c \<noteq> Unused
           \<and> unat (internalIndex m ! c) < length (componentArrays m)"
    using cols by blast
  from Access_live [OF idx(1) l entry(3) m' c']
  show "Access h Components w
      = Some (True, Some (map (\<lambda>c. Element a (unat (internalIndex m ! c)) (unat r)) Components))"
    using entry(1,2) by simp
  have "\<forall>c\<in>set Components. deref w (Element a (unat (internalIndex m ! c)) (unat r))
      = Some (componentArrays m ! unat (internalIndex m ! c) ! unat r)"
    using cols by (auto intro!: deref_Element [OF m])
  then show "map (deref w)
        (map (\<lambda>c. Element a (unat (internalIndex m ! c)) (unat r)) Components)
      = map (\<lambda>c. Some (componentArrays m ! unat (internalIndex m ! c) ! unat r)) Components"
    by simp
qed

text \<open>
  Claim C3.  Three entities \<open>e0\<close>, \<open>e1\<close>, \<open>e2\<close> are stored in the rows 0, 1, 2 of one
  block, which has size 3.  Destroying \<open>e1\<close> leaves the block with size 2; \<open>e0\<close> is still
  stored in row 0 and \<open>e2\<close> is now stored in row 1, its slot naming the new row; and for
  both handles Access, before and after, is invoked with pointers to values (none is
  null or out of range) and the values read through the pointers after the call are the
  values read before it.  \<open>Components\<close> are components of the block.
\<close>

theorem swap_removal_keeps_neighbours:
  fixes w :: "('w::len, 'v) World"
  assumes blk: "load (managers w) a = Some m" and size3: "size_arch m = 3"
    and lay: "blockLayout m"
    and e0: "stored w a h0 0" and e1: "stored w a h1 1" and e2: "stored w a h2 2"
    and comps: "set Components \<subseteq> set (componentIds (id_arch m))"
  shows "\<exists>h1' w' m'. Destroy ops h1 w = Some (h1', w')
      \<and> load (managers w') a = Some m' \<and> size_arch m' = 2
      \<and> stored w' a h0 0 \<and> stored w' a h2 1
      \<and> (\<exists>ps ps'. Access h0 Components w = Some (True, Some ps)
            \<and> Access h0 Components w' = Some (True, Some ps')
            \<and> map (deref w') ps' = map (deref w) ps \<and> None \<notin> set (map (deref w) ps))
      \<and> (\<exists>ps ps'. Access h2 Components w = Some (True, Some ps)
            \<and> Access h2 Components w' = Some (True, Some ps')
            \<and> map (deref w') ps' = map (deref w) ps \<and> None \<notin> set (map (deref w) ps))"
proof -
  let ?i0 = "unat (recordIndex h0)" and ?i1 = "unat (recordIndex h1)"
    and ?i2 = "unat (recordIndex h2)"
  note d0 = storedD [OF e0 blk] and d1 = storedD [OF e1 blk] and d2 = storedD [OF e2 blk]
  have u: "unat (0 :: Index) = 0" "unat (1 :: Index) = 1" "unat (2 :: Index) = 2"
    "unat (3 :: Index) = 3"
    by simp_all
  have a_lt: "a < length (managers w)" and m_eq: "managers w ! a = m"
    using blk by (auto simp: load_def split: if_splits)
  have ne01: "?i0 \<noteq> ?i1" using d0(4) d1(4) by auto
  have ne02: "?i0 \<noteq> ?i2" using d0(4) d2(4) by auto
  have ne12: "?i1 \<noteq> ?i2" using d1(4) d2(4) by auto
  have ri: "recordIndices m ! 0 = recordIndex h0" "recordIndices m ! 1 = recordIndex h1"
    "recordIndices m ! 2 = recordIndex h2"
    using d0(8) d1(8) d2(8) by (simp_all only: u)
  have len_ri: "3 \<le> length (recordIndices m)"
    using d2(7) by (simp only: u)
  have rw: "unat (1 :: Index) < unat (size_arch m) - 1"
    by (simp add: size3)
  have last: "unat (size_arch m) - 1 = 2"
    by (simp add: size3)
  have released: "unat (recordIndices m ! unat (1 :: Index)) < length (records w)"
    using d1(2) ri by (simp only: u)
  have moved: "unat (recordIndices m ! (unat (size_arch m) - 1)) < length (records w)"
    using d2(2) ri by (simp only: last)
  from RemoveRow_swap [OF blk lay rw released moved, of ops] obtain arrays w1 where
    rel: "Release ?i1 w = Some w1"
    and rem: "RemoveRow ops a 1 w
        = Some (w1\<lparr>records := (records w1)[?i2 := (records w1 ! ?i2)\<lparr>row := 1\<rparr>],
                 managers := (managers w)
                   [a := m\<lparr>size_arch := size_arch m - 1, componentArrays := arrays,
                          recordIndices := (recordIndices m)[1 := recordIndex h2]\<rparr>]\<rparr>)"
    and la: "length arrays = length (componentArrays m)"
    and cols: "\<forall>c\<in>set (componentIds (id_arch m)).
          arrays ! unat (internalIndex m ! c)
            = (componentArrays m ! unat (internalIndex m ! c))
                [1 := componentArrays m ! unat (internalIndex m ! c) ! 2,
                 2 := movedFrom (ops c) (componentArrays m ! unat (internalIndex m ! c) ! 2)]"
    unfolding last u ri by blast
  from Release_total [OF d1(2)] rel have w1: "managers w1 = managers w"
    "length (records w1) = length (records w)"
    "\<forall>j. j \<noteq> ?i1 \<longrightarrow> records w1 ! j = records w ! j"
    by auto
  let ?m' = "m\<lparr>size_arch := size_arch m - 1, componentArrays := arrays,
                recordIndices := (recordIndices m)[1 := recordIndex h2]\<rparr>"
  let ?w' = "w1\<lparr>records := (records w1)[?i2 := (records w1 ! ?i2)\<lparr>row := 1\<rparr>],
                managers := (managers w)[a := ?m']\<rparr>"
  have l1: "load (records w) ?i1 = Some (records w ! ?i1)"
    using d1(2) by (simp add: load_def)
  have destroy: "Destroy ops h1 w = Some (h1\<lparr>recordIndex := InvalidIndex\<rparr>, ?w')"
    using d1(1) d1(3) d1(4) d1(5) rem by (simp add: Destroy_def l1)
  have blk': "load (managers ?w') a = Some ?m'"
    using a_lt by (simp add: load_def)
  have size': "size_arch ?m' = 2"
    by (simp add: size3)
  have rec0: "records ?w' ! ?i0 = records w ! ?i0"
    using ne01 ne02 w1(3) by simp
  have rec2: "records ?w' ! ?i2 = (records w ! ?i2)\<lparr>row := 1\<rparr>"
    using ne12 w1(2,3) d2(2) by simp
  have len': "length (records ?w') = length (records w)"
    using w1(2) by simp
  have st0: "stored ?w' a h0 0"
    using d0 len_ri
    by (intro storedI [OF blk']) (simp_all only: rec0 len' size' u, simp_all add: ri)
  have st2: "stored ?w' a h2 1"
    using d2 len_ri
    by (intro storedI [OF blk']) (simp_all only: rec2 len' size' u, simp_all)
  have colsC: "\<forall>c\<in>set Components. c < length (internalIndex m)
        \<and> internalIndex m ! c \<noteq> Unused
        \<and> unat (internalIndex m ! c) < length (componentArrays m)
        \<and> 3 \<le> length (componentArrays m ! unat (internalIndex m ! c))"
    using comps blockLayout_component [OF lay] by (auto simp: size3)
  have colsC': "\<forall>c\<in>set Components.
        arrays ! unat (internalIndex m ! c)
            = (componentArrays m ! unat (internalIndex m ! c))
                [1 := componentArrays m ! unat (internalIndex m ! c) ! 2,
                 2 := movedFrom (ops c) (componentArrays m ! unat (internalIndex m ! c) ! 2)]"
    using comps cols by blast
  have pre: "\<forall>c\<in>set Components. c < length (internalIndex m)
        \<and> internalIndex m ! c \<noteq> Unused
        \<and> unat (internalIndex m ! c) < length (componentArrays m)
        \<and> unat r < length (componentArrays m ! unat (internalIndex m ! c))"
    if "unat r < 3" for r :: Index
    using colsC that by auto
  have post: "\<forall>c\<in>set Components. c < length (internalIndex ?m')
        \<and> internalIndex ?m' ! c \<noteq> Unused
        \<and> unat (internalIndex ?m' ! c) < length (componentArrays ?m')
        \<and> unat r < length (componentArrays ?m' ! unat (internalIndex ?m' ! c))"
    if "unat r < 3" for r :: Index
    using colsC colsC' that by (auto simp: la)
  have before0: "Access h0 Components w
      = Some (True, Some (map (\<lambda>c. Element a (unat (internalIndex m ! c)) (unat (0 :: Index)))
                          Components))"
    "map (deref w) (map (\<lambda>c. Element a (unat (internalIndex m ! c)) (unat (0 :: Index)))
                          Components)
      = map (\<lambda>c. Some (componentArrays m ! unat (internalIndex m ! c) ! unat (0 :: Index)))
          Components"
    by (rule Access_row [OF blk d0(1,2,3,4,5) pre]; simp)+
  have before2: "Access h2 Components w
      = Some (True, Some (map (\<lambda>c. Element a (unat (internalIndex m ! c)) (unat (2 :: Index)))
                          Components))"
    "map (deref w) (map (\<lambda>c. Element a (unat (internalIndex m ! c)) (unat (2 :: Index)))
                          Components)
      = map (\<lambda>c. Some (componentArrays m ! unat (internalIndex m ! c) ! unat (2 :: Index)))
          Components"
    by (rule Access_row [OF blk d2(1,2,3,4,5) pre]; simp)+
  note s0 = storedD [OF st0 blk'] and s2 = storedD [OF st2 blk']
  have after0: "Access h0 Components ?w'
      = Some (True, Some (map (\<lambda>c. Element a (unat (internalIndex ?m' ! c)) (unat (0 :: Index)))
                          Components))"
    "map (deref ?w') (map (\<lambda>c. Element a (unat (internalIndex ?m' ! c)) (unat (0 :: Index)))
                          Components)
      = map (\<lambda>c. Some (componentArrays ?m' ! unat (internalIndex ?m' ! c) ! unat (0 :: Index)))
          Components"
    by (rule Access_row [OF blk' s0(1,2,3,4,5) post]; simp)+
  have after2: "Access h2 Components ?w'
      = Some (True, Some (map (\<lambda>c. Element a (unat (internalIndex ?m' ! c)) (unat (1 :: Index)))
                          Components))"
    "map (deref ?w') (map (\<lambda>c. Element a (unat (internalIndex ?m' ! c)) (unat (1 :: Index)))
                          Components)
      = map (\<lambda>c. Some (componentArrays ?m' ! unat (internalIndex ?m' ! c) ! unat (1 :: Index)))
          Components"
    by (rule Access_row [OF blk' s2(1,2,3,4,5) post]; simp)+
  have same0: "map (\<lambda>c. Some (componentArrays ?m' ! unat (internalIndex ?m' ! c)
                                  ! unat (0 :: Index))) Components
      = map (\<lambda>c. Some (componentArrays m ! unat (internalIndex m ! c) ! unat (0 :: Index)))
          Components"
    using colsC colsC' by (intro map_cong) auto
  have same2: "map (\<lambda>c. Some (componentArrays ?m' ! unat (internalIndex ?m' ! c)
                                  ! unat (1 :: Index))) Components
      = map (\<lambda>c. Some (componentArrays m ! unat (internalIndex m ! c) ! unat (2 :: Index)))
          Components"
    using colsC colsC' by (intro map_cong) auto
  have r0: "\<exists>ps ps'. Access h0 Components w = Some (True, Some ps)
            \<and> Access h0 Components ?w' = Some (True, Some ps')
            \<and> map (deref ?w') ps' = map (deref w) ps \<and> None \<notin> set (map (deref w) ps)"
    apply (rule exI [of _ "map (\<lambda>c. Element a (unat (internalIndex m ! c))
                                     (unat (0 :: Index))) Components"])
    apply (rule exI [of _ "map (\<lambda>c. Element a (unat (internalIndex ?m' ! c))
                                     (unat (0 :: Index))) Components"])
    apply (simp only: before0 after0 same0)
    apply auto
    done
  have r2: "\<exists>ps ps'. Access h2 Components w = Some (True, Some ps)
            \<and> Access h2 Components ?w' = Some (True, Some ps')
            \<and> map (deref ?w') ps' = map (deref w) ps \<and> None \<notin> set (map (deref w) ps)"
    apply (rule exI [of _ "map (\<lambda>c. Element a (unat (internalIndex m ! c))
                                     (unat (2 :: Index))) Components"])
    apply (rule exI [of _ "map (\<lambda>c. Element a (unat (internalIndex ?m' ! c))
                                     (unat (1 :: Index))) Components"])
    apply (simp only: before2 after2 same2)
    apply auto
    done
  from destroy blk' size' st0 st2 r0 r2 show ?thesis
    by blast
qed

theorem swap_removal_keeps_neighbours_witness:
  "load (managers threeEntityWorld) 0
     = Some \<lparr>id_arch = 3, recordIndices = [0, 1, 2],
             componentArrays = [[10, 11, 12], [20, 21, 22]],
             internalIndex = 0 # 1 # replicate 62 0, capacity_arch = 3, size_arch = 3\<rparr>
   \<and> blockLayout \<lparr>id_arch = 3 :: 64 word, recordIndices = [0, 1, 2],
             componentArrays = [[10, 11, 12], [20, 21, 22 :: nat]],
             internalIndex = 0 # 1 # replicate 62 0, capacity_arch = 3, size_arch = 3\<rparr>
   \<and> stored threeEntityWorld 0 (handle 0 0) 0
   \<and> stored threeEntityWorld 0 (handle 1 0) 1
   \<and> stored threeEntityWorld 0 (handle 2 0) 2
   \<and> set [0, 1] \<subseteq> set (componentIds (3 :: 64 word))
   \<and> Destroy exampleOps (handle 1 0) threeEntityWorld
       = Some ((handle 1 0)\<lparr>recordIndex := InvalidIndex\<rparr>, twoEntityWorld)
   \<and> stored twoEntityWorld 0 (handle 0 0) 0
   \<and> stored twoEntityWorld 0 (handle 2 0) 1
   \<and> Access (handle 2 0) [0, 1] threeEntityWorld = Some (True, Some [Element 0 0 2, Element 0 1 2])
   \<and> map (deref threeEntityWorld) [Element 0 0 2, Element 0 1 2] = [Some 12, Some 22]
   \<and> Access (handle 2 0) [0, 1] twoEntityWorld = Some (True, Some [Element 0 0 1, Element 0 1 1])
   \<and> map (deref twoEntityWorld) [Element 0 0 1, Element 0 1 1] = [Some 12, Some 22]"
proof -
  let ?m = "\<lparr>id_arch = 3 :: 64 word, recordIndices = [0, 1, 2],
             componentArrays = [[10, 11, 12], [20, 21, 22 :: nat]],
             internalIndex = 0 # 1 # replicate 62 0, capacity_arch = 3, size_arch = 3\<rparr>"
  have blk: "load (managers threeEntityWorld) 0 = Some ?m"
    by (simp add: threeEntityWorld_def load_def)
  have size3: "size_arch ?m = 3"
    by simp
  have ids: "componentIds (3 :: 64 word) = [0, 1]"
    by code_simp
  have lay: "blockLayout ?m"
    by (simp add: blockLayout_def ids Unused_def)
  have e0: "stored threeEntityWorld 0 (handle 0 0) 0"
    and e1: "stored threeEntityWorld 0 (handle 1 0) 1"
    and e2: "stored threeEntityWorld 0 (handle 2 0) 2"
    by (simp_all add: stored_def threeEntityWorld_def handle_def load_def InvalidIndex_def)
  have comps: "set [0, 1] \<subseteq> set (componentIds (id_arch ?m))"
    by (simp add: ids)
  from swap_removal_keeps_neighbours [OF blk size3 lay e0 e1 e2 comps, of exampleOps]
  obtain h1' w' where d: "Destroy exampleOps (handle 1 0) threeEntityWorld = Some (h1', w')"
    and s: "stored w' 0 (handle 0 0) 0" "stored w' 0 (handle 2 0) 1"
    by blast
  from d [unfolded threeEntityWorld_destroyed] have "w' = twoEntityWorld"
    by simp
  with s have after: "stored twoEntityWorld 0 (handle 0 0) 0"
    "stored twoEntityWorld 0 (handle 2 0) 1"
    by simp_all
  have acc: "Access (handle 2 0) [0, 1] threeEntityWorld
        = Some (True, Some [Element 0 0 2, Element 0 1 2])"
    "map (deref threeEntityWorld) [Element 0 0 2, Element 0 1 2] = [Some 12, Some 22]"
    "Access (handle 2 0) [0, 1] twoEntityWorld = Some (True, Some [Element 0 0 1, Element 0 1 1])"
    "map (deref twoEntityWorld) [Element 0 0 1, Element 0 1 1] = [Some 12, Some 22]"
    by code_simp+
  from comps have comps': "set [0, 1] \<subseteq> set (componentIds (3 :: 64 word))"
    by simp
  from blk lay e0 e1 e2 comps' threeEntityWorld_destroyed after acc show ?thesis
    by (simp only: simp_thms)
qed

section \<open>Growth of a block\<close>

lemma moveElements_eq:
  assumes "i \<le> n" and "n \<le> length orig" and "n \<le> length new"
  shows "moveElements i n orig new = Some (take i new @ drop i (take n orig) @ drop n new)"
  using assms
proof (induction "n - i" arbitrary: i new)
  case 0
  then have "i = n" by simp
  then show ?case
    by (subst moveElements.simps) simp
next
  case (Suc k)
  then have lt: "i < n" by simp
  let ?new = "new[i := orig ! i]"
  have ih: "moveElements (i + 1) n orig ?new
      = Some (take (i + 1) ?new @ drop (i + 1) (take n orig) @ drop n ?new)"
    using Suc.hyps(2) Suc.prems lt by (intro Suc.hyps(1)) simp_all
  have a: "take (i + 1) ?new = take i new @ [orig ! i]"
    using lt Suc.prems by (simp add: take_Suc_conv_app_nth)
  have b: "drop i (take n orig) = orig ! i # drop (i + 1) (take n orig)"
    using lt Suc.prems by (simp add: Cons_nth_drop_Suc [symmetric])
  have c: "drop n ?new = drop n new"
    using lt by simp
  show ?case
    using lt Suc.prems
    by (subst moveElements.simps) (simp add: load_def store_def ih a b c del: One_nat_def)
qed

lemma moveRecords_eq:
  assumes "unat i \<le> n" and "n \<le> 65535" and "n \<le> length recs" and "n \<le> length new"
  shows "moveRecords i n recs new
    = Some (take (unat i) new @ drop (unat i) (take n recs) @ drop n new)"
  using assms
proof (induction "n - unat i" arbitrary: i new)
  case 0
  then have "unat i = n" by simp
  then show ?case
    by (subst moveRecords.simps) simp
next
  case (Suc k)
  then have lt: "unat i < n" by simp
  with Suc.prems(2) have "unat i + unat (1 :: Index) < 2 ^ LENGTH(16)" by simp
  then have next_i: "unat (i + 1) = unat i + 1"
    by (simp only: unat_add_lem [THEN iffD1]) simp
  let ?new = "new[unat i := recs ! unat i]"
  have ih: "moveRecords (i + 1) n recs ?new
      = Some (take (unat (i + 1)) ?new @ drop (unat (i + 1)) (take n recs) @ drop n ?new)"
    using Suc.hyps(2) Suc.prems lt next_i by (intro Suc.hyps(1)) simp_all
  have a: "take (unat i + 1) ?new = take (unat i) new @ [recs ! unat i]"
    using lt Suc.prems by (simp add: take_Suc_conv_app_nth)
  have b: "drop (unat i) (take n recs) = recs ! unat i # drop (unat i + 1) (take n recs)"
    using lt Suc.prems by (simp add: Cons_nth_drop_Suc [symmetric])
  have c: "drop n ?new = drop n new"
    using lt by simp
  show ?case
    using lt Suc.prems
    by (subst moveRecords.simps)
       (simp add: load_def store_def ih next_i a b c del: One_nat_def)
qed

lemma ResizeArray_allocated:
  assumes "moveCount \<le> length ptrToArray" and "moveCount \<le> newSize"
  shows "ResizeArray T True ptrToArray newSize moveCount
    = Some (Returns True,
            take moveCount ptrToArray @ replicate (newSize - moveCount) (newElement T))"
  using assms by (simp add: ResizeArray_def new_array_def moveElements_eq)

lemma growCapacity_unat:
  assumes "unat c \<le> 43690"
  shows "unat (growCapacity c) = (if c = 0 then 2 else unat c * 2 - unat c div 2)"
    and "unat c < unat (growCapacity c)"
proof -
  have u: "unat (of_nat k :: Index) = k" if "k < 2 ^ 16" for k
    using that by (simp add: unat_of_nat)
  have eq: "unat (growCapacity c) = (if c = 0 then 2 else unat c * 2 - unat c div 2)"
  proof (cases "c = 0")
    case True
    then show ?thesis by (simp add: growCapacity_def)
  next
    case False
    from assms have "unat c * 2 - unat c div 2 < 2 ^ 16"
      by simp
    then have "unat (of_nat (unat c * 2 - unat c div 2) :: Index) = unat c * 2 - unat c div 2"
      by (rule u)
    with False show ?thesis
      by (simp only: growCapacity_def if_False)
  qed
  then show "unat (growCapacity c) = (if c = 0 then 2 else unat c * 2 - unat c div 2)" .
  have "c \<noteq> 0 \<Longrightarrow> unat c \<noteq> 0"
    by (simp add: unat_eq_0)
  with eq show "unat c < unat (growCapacity c)"
    by (cases "c = 0") auto
qed

lemma capacityLimit_small:
  "unat c \<le> 43690 \<Longrightarrow> capacityLimit (growCapacity c) = capacityLimit c"
  by (subst (2) capacityLimit.simps) simp

lemma capacityLimit_large: "43690 < unat c \<Longrightarrow> capacityLimit c = unat c"
  by (subst capacityLimit.simps) simp

lemma capacityLimit_0: "capacityLimit 0 = 61446"
  by (simp add: capacityLimit.simps growCapacity_def)

lemma Reserve_allocated:
  fixes w :: "('w::len, 'v) World"
  assumes ok: "tableOk w"
    and small: "freeList w = [] \<and> capacity_rec w \<le> last_rec w \<longrightarrow> capacity_rec w \<le> 65535"
  shows "\<exists>i w1. Reserve True w = Some (Returns (Rec i), w1) \<and> tableOk w1 \<and> i < length (records w1)
      \<and> last_rec w1 \<le> last_rec w + 1 \<and> managers w1 = managers w"
proof (cases "freeList w")
  case (Cons x xs)
  with ok have "x < length (records w)" and "tableOk (w\<lparr>freeList := xs\<rparr>)"
    by (simp_all add: tableOk_def)
  with Cons show ?thesis
    by (simp add: Reserve_def load_def)
next
  case Nil
  show ?thesis
  proof (cases "capacity_rec w \<le> last_rec w")
    case False
    with ok Nil have "last_rec w < length (records w)"
      and "tableOk (w\<lparr>last_rec := last_rec w + 1\<rparr>)"
      by (simp_all add: tableOk_def)
    with Nil False show ?thesis
      by (simp add: Reserve_def load_def)
  next
    case True
    let ?c = "capacity_rec w"
    let ?n = "if ?c = 0 then 2 else ?c * 2 - ?c div 2"
    from ok True have last: "last_rec w = ?c" and len: "length (records w) = ?c"
      by (simp_all add: tableOk_def)
    from small Nil True have c: "?c \<le> 65535" by simp
    have grow: "?c < ?n" by auto
    let ?new = "take ?c (records w) @ drop ?c (replicate ?n defaultRecord)"
    have "moveRecords 0 ?c (records w) (replicate ?n defaultRecord)
        = Some (take (unat (0 :: Index)) (replicate ?n defaultRecord)
                @ drop (unat (0 :: Index)) (take ?c (records w))
                @ drop ?c (replicate ?n defaultRecord))"
      using c len grow by (intro moveRecords_eq) simp_all
    then have mv: "moveRecords 0 ?c (records w) (replicate ?n defaultRecord) = Some ?new"
      by simp
    have len_new: "length ?new = ?n"
      using len grow by simp
    let ?w1 = "w\<lparr>capacity_rec := ?n, records := ?new, last_rec := last_rec w + 1\<rparr>"
    have res: "Reserve True w = Some (Returns (Rec (last_rec w)), ?w1)"
      using Nil True mv len_new grow last
      by (simp add: Reserve_def new_array_def Let_def load_def)
    have "tableOk ?w1"
      using Nil len_new grow last by (simp add: tableOk_def)
    with res len_new grow last show ?thesis
      by (intro exI [of _ "last_rec w"] exI [of _ ?w1]) simp
  qed
qed

lemma resizeColumn_columns:
  fixes m :: "('w::len, 'v) ArchetypeManager"
  assumes "distinct (map (\<lambda>c. internalIndex m ! c) cs)"
    and "\<forall>c\<in>set cs. c < length (internalIndex m)
           \<and> unat (internalIndex m ! c) < length (componentArrays m)
           \<and> unat (size_arch m) \<le> length (componentArrays m ! unat (internalIndex m ! c))
           \<and> newColumn alloc c"
    and "unat (size_arch m) \<le> unat (capacity_arch m)"
  shows "\<exists>arrays. eachOf cs (resizeColumn ops alloc) (Returns (), m)
            = Some (Returns (), m\<lparr>componentArrays := arrays\<rparr>)
     \<and> length arrays = length (componentArrays m)
     \<and> (\<forall>c\<in>set cs. arrays ! unat (internalIndex m ! c)
           = take (unat (size_arch m)) (componentArrays m ! unat (internalIndex m ! c))
             @ replicate (unat (capacity_arch m) - unat (size_arch m)) (newElement (ops c)))
     \<and> (\<forall>j. j \<notin> (\<lambda>c. unat (internalIndex m ! c)) ` set cs
           \<longrightarrow> arrays ! j = componentArrays m ! j)"
  using assms
proof (induction cs arbitrary: m)
  case Nil
  show ?case
    by (intro exI [of _ "componentArrays m"]) simp
next
  case (Cons c cs)
  let ?j = "unat (internalIndex m ! c)"
  let ?col = "take (unat (size_arch m)) (componentArrays m ! ?j)
      @ replicate (unat (capacity_arch m) - unat (size_arch m)) (newElement (ops c))"
  let ?m1 = "m\<lparr>componentArrays := (componentArrays m)[?j := ?col]\<rparr>"
  from Cons.prems(2) have c: "c < length (internalIndex m)" "?j < length (componentArrays m)"
    "unat (size_arch m) \<le> length (componentArrays m ! ?j)" "newColumn alloc c"
    by simp_all
  have step: "resizeColumn ops alloc c (Returns (), m) = Some (Returns (), ?m1)"
    using c Cons.prems(3)
    by (simp add: resizeColumn_def load_def store_def ResizeArray_allocated)
  from Cons.prems(1) have d: "distinct (map (\<lambda>c. internalIndex ?m1 ! c) cs)"
    and "\<forall>x\<in>set cs. internalIndex m ! x \<noteq> internalIndex m ! c"
    by (auto simp: image_iff)
  then have other: "\<forall>x\<in>set cs. unat (internalIndex m ! x) \<noteq> ?j"
    by (simp add: word_unat_eq_iff)
  then have other': "\<forall>x\<in>set cs. ?j \<noteq> unat (internalIndex m ! x)"
    by metis
  have pre: "\<forall>x\<in>set cs. x < length (internalIndex ?m1)
           \<and> unat (internalIndex ?m1 ! x) < length (componentArrays ?m1)
           \<and> unat (size_arch ?m1)
               \<le> length (componentArrays ?m1 ! unat (internalIndex ?m1 ! x))
           \<and> newColumn alloc x"
    using Cons.prems(2) other other' by auto
  have cap: "unat (size_arch ?m1) \<le> unat (capacity_arch ?m1)"
    using Cons.prems(3) by simp
  from Cons.IH [OF d pre cap] obtain arrays where
    r: "eachOf cs (resizeColumn ops alloc) (Returns (), ?m1)
            = Some (Returns (), ?m1\<lparr>componentArrays := arrays\<rparr>)"
    and l: "length arrays = length (componentArrays ?m1)"
    and cols: "\<forall>x\<in>set cs. arrays ! unat (internalIndex ?m1 ! x)
           = take (unat (size_arch ?m1)) (componentArrays ?m1 ! unat (internalIndex ?m1 ! x))
             @ replicate (unat (capacity_arch ?m1) - unat (size_arch ?m1)) (newElement (ops x))"
    and rest: "\<forall>j. j \<notin> (\<lambda>c. unat (internalIndex ?m1 ! c)) ` set cs
           \<longrightarrow> arrays ! j = componentArrays ?m1 ! j"
    by blast
  have run: "eachOf (c # cs) (resizeColumn ops alloc) (Returns (), m)
      = Some (Returns (), m\<lparr>componentArrays := arrays\<rparr>)"
    using step r by simp
  have "?j \<notin> (\<lambda>c. unat (internalIndex ?m1 ! c)) ` set cs"
    using other' by auto
  with rest have "arrays ! ?j = componentArrays ?m1 ! ?j"
    by blast
  with c(2) have here: "arrays ! ?j = ?col"
    by simp
  have there: "\<forall>x\<in>set cs. arrays ! unat (internalIndex m ! x)
           = take (unat (size_arch m)) (componentArrays m ! unat (internalIndex m ! x))
             @ replicate (unat (capacity_arch m) - unat (size_arch m)) (newElement (ops x))"
    using cols other other' by auto
  have outside: "\<forall>j. j \<notin> (\<lambda>c. unat (internalIndex m ! c)) ` set (c # cs)
      \<longrightarrow> arrays ! j = componentArrays m ! j"
    using rest by simp
  from run l here there outside show ?case
    by (intro exI [of _ arrays]) simp
qed

lemma blockAllocatedD:
  assumes "blockAllocated m"
  shows "blockLayout m" and "unat (size_arch m) \<le> unat (capacity_arch m)"
    and "length (recordIndices m) = unat (capacity_arch m)"
    and "\<And>c. c \<in> set (componentIds (id_arch m))
          \<Longrightarrow> length (componentArrays m ! unat (internalIndex m ! c)) = unat (capacity_arch m)"
  using assms by (auto simp: blockAllocated_def list_all_iff word_le_nat_alt)

lemma blockAllocatedI:
  assumes "length (internalIndex m) = LENGTH('w)"
    and "distinct (map (\<lambda>c. internalIndex m ! c) (componentIds (id_arch m)))"
    and "unat (size_arch m) \<le> unat (capacity_arch m)"
    and "length (recordIndices m) = unat (capacity_arch m)"
    and "\<And>c. c \<in> set (componentIds (id_arch m)) \<Longrightarrow>
           internalIndex m ! c \<noteq> Unused
           \<and> unat (internalIndex m ! c) < length (componentArrays m)
           \<and> length (componentArrays m ! unat (internalIndex m ! c)) = unat (capacity_arch m)"
  shows "blockAllocated (m :: ('w::len, 'v) ArchetypeManager)"
  using assms by (auto simp: blockAllocated_def blockLayout_def list_all_iff word_le_nat_alt)

lemma blockLayoutD:
  assumes "blockLayout (m :: ('w::len, 'v) ArchetypeManager)"
  shows "length (internalIndex m) = LENGTH('w)"
    and "distinct (map (\<lambda>c. internalIndex m ! c) (componentIds (id_arch m)))"
  using assms by (simp_all add: blockLayout_def)

lemma grow_block:
  fixes m :: "('w::len, 'v) ArchetypeManager"
  assumes ba: "blockAllocated m" and full: "capacity_arch m \<le> size_arch m"
    and sz: "unat (size_arch m) \<le> 43690"
    and re: "reallocIndices alloc"
    and nc: "list_all (newColumn alloc) (componentIds (id_arch m))"
  shows "\<exists>m1. EachComponent (id_arch m) 0 (resizeColumn ops alloc)
            (Returns (),
             m\<lparr>capacity_arch := growCapacity (capacity_arch m),
               recordIndices := realloc_indices alloc (recordIndices m)
                                  (unat (growCapacity (capacity_arch m)))\<rparr>)
          = Some (Returns (), m1)
     \<and> blockAllocated m1 \<and> id_arch m1 = id_arch m \<and> internalIndex m1 = internalIndex m
     \<and> size_arch m1 = size_arch m \<and> capacity_arch m1 = growCapacity (capacity_arch m)
     \<and> length (componentArrays m1) = length (componentArrays m)
     \<and> length (recordIndices m1) = unat (growCapacity (capacity_arch m))
     \<and> take (unat (size_arch m)) (recordIndices m1)
         = take (unat (size_arch m)) (recordIndices m)
     \<and> (\<forall>c\<in>set (componentIds (id_arch m)).
          componentArrays m1 ! unat (internalIndex m ! c)
            = take (unat (size_arch m)) (componentArrays m ! unat (internalIndex m ! c))
              @ replicate (unat (growCapacity (capacity_arch m)) - unat (size_arch m))
                  (newElement (ops c)))
     \<and> unat (size_arch m) < unat (capacity_arch m1)"
proof -
  let ?cap = "growCapacity (capacity_arch m)"
  let ?ri = "realloc_indices alloc (recordIndices m) (unat ?cap)"
  let ?m0 = "m\<lparr>capacity_arch := ?cap, recordIndices := ?ri\<rparr>"
  note b = blockAllocatedD [OF ba]
  note lay = blockLayoutD [OF b(1)]
  from full b(2) have eq: "unat (capacity_arch m) = unat (size_arch m)"
    by (simp add: word_le_nat_alt)
  with sz have "unat (capacity_arch m) \<le> 43690" by simp
  from growCapacity_unat(2) [OF this] eq have gt: "unat (size_arch m) < unat ?cap"
    by simp
  have ri: "?ri = recordIndices m @ replicate (unat ?cap - length (recordIndices m)) (freshIndex alloc)"
    using re b(3) eq gt by (simp add: realloc_indices_def)
  have len_ri: "length ?ri = unat ?cap"
    using b(3) eq gt by (simp add: ri)
  have take_ri: "take (unat (size_arch m)) ?ri = take (unat (size_arch m)) (recordIndices m)"
    using b(3) eq by (simp add: ri)
  have d: "distinct (map (\<lambda>c. internalIndex ?m0 ! c) (componentIds (id_arch m)))"
    using lay(2) by simp
  have pre: "\<forall>c\<in>set (componentIds (id_arch m)). c < length (internalIndex ?m0)
           \<and> unat (internalIndex ?m0 ! c) < length (componentArrays ?m0)
           \<and> unat (size_arch ?m0)
               \<le> length (componentArrays ?m0 ! unat (internalIndex ?m0 ! c))
           \<and> newColumn alloc c"
    using blockLayout_component [OF b(1)] nc by (auto simp: list_all_iff)
  have cap: "unat (size_arch ?m0) \<le> unat (capacity_arch ?m0)"
    using gt by simp
  from resizeColumn_columns [OF d pre cap, of ops] obtain arrays where
    run: "eachOf (componentIds (id_arch m)) (resizeColumn ops alloc) (Returns (), ?m0)
            = Some (Returns (), ?m0\<lparr>componentArrays := arrays\<rparr>)"
    and la: "length arrays = length (componentArrays m)"
    and cols: "\<forall>c\<in>set (componentIds (id_arch m)). arrays ! unat (internalIndex m ! c)
           = take (unat (size_arch m)) (componentArrays m ! unat (internalIndex m ! c))
             @ replicate (unat ?cap - unat (size_arch m)) (newElement (ops c))"
    by auto
  let ?m1 = "?m0\<lparr>componentArrays := arrays\<rparr>"
  have alloc1: "blockAllocated ?m1"
  proof (rule blockAllocatedI)
    show "length (internalIndex ?m1) = LENGTH('w)" using lay(1) by simp
    show "distinct (map (\<lambda>c. internalIndex ?m1 ! c) (componentIds (id_arch ?m1)))"
      using lay(2) by simp
    show "unat (size_arch ?m1) \<le> unat (capacity_arch ?m1)" using gt by simp
    show "length (recordIndices ?m1) = unat (capacity_arch ?m1)" using len_ri by simp
    fix c assume "c \<in> set (componentIds (id_arch ?m1))"
    then have c: "c \<in> set (componentIds (id_arch m))" by simp
    from blockLayout_component [OF b(1) c] cols c gt la
    show "internalIndex ?m1 ! c \<noteq> Unused
           \<and> unat (internalIndex ?m1 ! c) < length (componentArrays ?m1)
           \<and> length (componentArrays ?m1 ! unat (internalIndex ?m1 ! c))
               = unat (capacity_arch ?m1)"
      by simp
  qed
  have "EachComponent (id_arch m) 0 (resizeColumn ops alloc) (Returns (), ?m0)
      = Some (Returns (), ?m1)"
    using run by (simp add: EachComponent_eachOf)
  with alloc1 la len_ri take_ri cols gt show ?thesis
    by (intro exI [of _ ?m1]) simp
qed

lemma ReserveRecord_step:
  fixes w :: "('w::len, 'v) World"
  assumes ok: "tableOk w"
    and small: "freeList w = [] \<and> capacity_rec w \<le> last_rec w \<longrightarrow> capacity_rec w \<le> 65535"
    and al: "newRecords alloc" "reallocIndices alloc"
      "list_all (newColumn alloc) (componentIds (id_arch m))"
    and blk: "load (managers w) a = Some m" and ba: "blockAllocated m"
    and grows: "capacity_arch m \<le> size_arch m \<longrightarrow> unat (capacity_arch m) \<le> 43690"
  shows "\<exists>i w' m'. ReserveRecord ops alloc a w = Some (Returns (Rec i), w')
     \<and> tableOk w' \<and> last_rec w' \<le> last_rec w + 1
     \<and> load (managers w') a = Some m' \<and> blockAllocated m'
     \<and> id_arch m' = id_arch m \<and> internalIndex m' = internalIndex m
     \<and> length (componentArrays m') = length (componentArrays m)
     \<and> unat (size_arch m') = unat (size_arch m) + 1
     \<and> capacity_arch m' = (if capacity_arch m \<le> size_arch m
                             then growCapacity (capacity_arch m) else capacity_arch m)
     \<and> take (unat (size_arch m)) (recordIndices m')
         = take (unat (size_arch m)) (recordIndices m)
     \<and> (\<forall>c\<in>set (componentIds (id_arch m)).
          take (unat (size_arch m)) (componentArrays m' ! unat (internalIndex m ! c))
            = take (unat (size_arch m)) (componentArrays m ! unat (internalIndex m ! c)))
     \<and> rowOf (Rec i) w' = Some (size_arch m)
     \<and> recordIndices m' ! unat (size_arch m) = of_nat i"
proof -
  let ?s = "size_arch m"
  from Reserve_allocated [OF ok small] obtain i w1 where
    res: "Reserve True w = Some (Returns (Rec i), w1)" and ok1: "tableOk w1"
    and i: "i < length (records w1)" and last1: "last_rec w1 \<le> last_rec w + 1"
    and ms1: "managers w1 = managers w"
    by blast
  note b = blockAllocatedD [OF ba]
  have "\<exists>m1. (if capacity_arch m \<le> ?s
         then EachComponent (id_arch m) 0 (resizeColumn ops alloc)
                (Returns (),
                 m\<lparr>capacity_arch := growCapacity (capacity_arch m),
                   recordIndices := realloc_indices alloc (recordIndices m)
                                      (unat (growCapacity (capacity_arch m)))\<rparr>)
         else Some (Returns (), m)) = Some (Returns (), m1)
     \<and> blockAllocated m1 \<and> id_arch m1 = id_arch m \<and> internalIndex m1 = internalIndex m
     \<and> size_arch m1 = ?s
     \<and> capacity_arch m1 = (if capacity_arch m \<le> ?s
                              then growCapacity (capacity_arch m) else capacity_arch m)
     \<and> length (componentArrays m1) = length (componentArrays m)
     \<and> take (unat ?s) (recordIndices m1) = take (unat ?s) (recordIndices m)
     \<and> (\<forall>c\<in>set (componentIds (id_arch m)).
          take (unat ?s) (componentArrays m1 ! unat (internalIndex m ! c))
            = take (unat ?s) (componentArrays m ! unat (internalIndex m ! c)))
     \<and> unat ?s < unat (capacity_arch m1)"
  proof (cases "capacity_arch m \<le> ?s")
    case True
    with b(2) grows have sz: "unat (size_arch m) \<le> 43690"
      by (simp add: word_le_nat_alt)
    from grow_block [OF ba True sz al(2,3), of ops] obtain m1 where
      g: "EachComponent (id_arch m) 0 (resizeColumn ops alloc)
            (Returns (),
             m\<lparr>capacity_arch := growCapacity (capacity_arch m),
               recordIndices := realloc_indices alloc (recordIndices m)
                                  (unat (growCapacity (capacity_arch m)))\<rparr>)
          = Some (Returns (), m1)"
      "blockAllocated m1" "id_arch m1 = id_arch m" "internalIndex m1 = internalIndex m"
      "size_arch m1 = ?s" "capacity_arch m1 = growCapacity (capacity_arch m)"
      "length (componentArrays m1) = length (componentArrays m)"
      "take (unat ?s) (recordIndices m1) = take (unat ?s) (recordIndices m)"
      "\<forall>c\<in>set (componentIds (id_arch m)).
          componentArrays m1 ! unat (internalIndex m ! c)
            = take (unat ?s) (componentArrays m ! unat (internalIndex m ! c))
              @ replicate (unat (growCapacity (capacity_arch m)) - unat ?s) (newElement (ops c))"
      "unat ?s < unat (capacity_arch m1)"
      by blast
    have "\<forall>c\<in>set (componentIds (id_arch m)).
          take (unat ?s) (componentArrays m1 ! unat (internalIndex m ! c))
            = take (unat ?s) (componentArrays m ! unat (internalIndex m ! c))"
      using g(9) blockLayout_component(4) [OF b(1)] by simp
    with True g show ?thesis
      by (intro exI [of _ m1]) (simp only: if_True simp_thms)
  next
    case False
    then have "unat ?s < unat (capacity_arch m)"
      by (simp add: word_le_nat_alt)
    with False ba show ?thesis
      by (intro exI [of _ m]) simp
  qed
  then obtain m1 where
    m1: "(if capacity_arch m \<le> ?s
         then EachComponent (id_arch m) 0 (resizeColumn ops alloc)
                (Returns (),
                 m\<lparr>capacity_arch := growCapacity (capacity_arch m),
                   recordIndices := realloc_indices alloc (recordIndices m)
                                      (unat (growCapacity (capacity_arch m)))\<rparr>)
         else Some (Returns (), m)) = Some (Returns (), m1)"
    and ba1: "blockAllocated m1" and same: "id_arch m1 = id_arch m"
      "internalIndex m1 = internalIndex m" "size_arch m1 = ?s"
    and cap1: "capacity_arch m1 = (if capacity_arch m \<le> ?s
                              then growCapacity (capacity_arch m) else capacity_arch m)"
    and la: "length (componentArrays m1) = length (componentArrays m)"
    and take_ri: "take (unat ?s) (recordIndices m1) = take (unat ?s) (recordIndices m)"
    and take_cols: "\<forall>c\<in>set (componentIds (id_arch m)).
          take (unat ?s) (componentArrays m1 ! unat (internalIndex m ! c))
            = take (unat ?s) (componentArrays m ! unat (internalIndex m ! c))"
    and room: "unat ?s < unat (capacity_arch m1)"
    by blast
  note b1 = blockAllocatedD [OF ba1]
  note lay1 = blockLayoutD [OF b1(1)]
  have "unat (capacity_arch m1) < 2 ^ LENGTH(16)"
    by (rule unsigned_less)
  with room have "unat ?s + unat (1 :: Index) < 2 ^ LENGTH(16)" by simp
  then have suc: "unat (?s + 1) = unat ?s + 1"
    by (simp only: unat_add_lem [THEN iffD1]) simp
  let ?m' = "m1\<lparr>recordIndices := (recordIndices m1)[unat ?s := of_nat i],
                size_arch := ?s + 1\<rparr>"
  let ?w2 = "w1\<lparr>records := (records w1)[i := (records w1 ! i)\<lparr>archetype := of_nat a,
                                                           row := ?s\<rparr>]\<rparr>"
  let ?w' = "?w2\<lparr>managers := (managers ?w2)[a := ?m']\<rparr>"
  have a_lt: "a < length (managers w)"
    using blk by (auto simp: load_def split: if_splits)
  have st: "store (recordIndices m1) (unat ?s) (of_nat i)
      = Some ((recordIndices m1)[unat ?s := of_nat i])"
    using room b1(3) by (simp add: store_def)
  have link: "linkRecord (Rec i) (of_nat a) ?s w1 = Some ?w2"
    using i by (simp add: load_def)
  have rr: "ReserveRecord ops alloc a w = Some (Returns (Rec i), ?w')"
    unfolding ReserveRecord_def
    using al(1) res blk m1 st link
    by (simp add: ms1 same del: linkRecord.simps)
  have ok': "tableOk ?w'"
    using ok1 by (simp add: tableOk_def)
  have blk': "load (managers ?w') a = Some ?m'"
    using a_lt by (simp add: load_def ms1)
  have ba': "blockAllocated ?m'"
  proof (rule blockAllocatedI)
    show "length (internalIndex ?m') = LENGTH('w)" using lay1(1) by simp
    show "distinct (map (\<lambda>c. internalIndex ?m' ! c) (componentIds (id_arch ?m')))"
      using lay1(2) by simp
    show "unat (size_arch ?m') \<le> unat (capacity_arch ?m')" using room suc by simp
    show "length (recordIndices ?m') = unat (capacity_arch ?m')" using b1(3) by simp
    fix c assume "c \<in> set (componentIds (id_arch ?m'))"
    then have c: "c \<in> set (componentIds (id_arch m1))" by simp
    from blockLayout_component [OF b1(1) c] b1(4) [OF c]
    show "internalIndex ?m' ! c \<noteq> Unused
           \<and> unat (internalIndex ?m' ! c) < length (componentArrays ?m')
           \<and> length (componentArrays ?m' ! unat (internalIndex ?m' ! c))
               = unat (capacity_arch ?m')"
      by simp
  qed
  have row: "rowOf (Rec i) ?w' = Some ?s"
    using i by (simp add: load_def)
  have ri_at: "recordIndices ?m' ! unat ?s = of_nat i"
    using room b1(3) by simp
  have take_ri': "take (unat ?s) (recordIndices ?m') = take (unat ?s) (recordIndices m)"
    using take_ri by simp
  have last': "last_rec ?w' \<le> last_rec w + 1"
    using last1 by simp
  have fields: "id_arch ?m' = id_arch m" "internalIndex ?m' = internalIndex m"
    "length (componentArrays ?m') = length (componentArrays m)"
    "unat (size_arch ?m') = unat ?s + 1"
    "capacity_arch ?m' = (if capacity_arch m \<le> ?s
                             then growCapacity (capacity_arch m) else capacity_arch m)"
    "\<forall>c\<in>set (componentIds (id_arch m)).
          take (unat ?s) (componentArrays ?m' ! unat (internalIndex m ! c))
            = take (unat ?s) (componentArrays m ! unat (internalIndex m ! c))"
    using same la suc cap1 take_cols by simp_all
  show ?thesis
    apply (rule exI [of _ i], rule exI [of _ ?w'], rule exI [of _ ?m'])
    apply (intro conjI)
    apply (fact rr ok' last' blk' ba' fields take_ri' row ri_at)+
    done
qed

lemma writeRow_columns:
  assumes "distinct (map (\<lambda>c. internalIndex m ! c) cs)"
    and "\<forall>c\<in>set cs. c < length (internalIndex m)
           \<and> unat (internalIndex m ! c) < length arrays
           \<and> unat r < length (arrays ! unat (internalIndex m ! c))"
  shows "\<exists>arrays'. eachOf cs
       (\<lambda>c arrays. do {
          index \<leftarrow> load (internalIndex m) c;
          col \<leftarrow> load arrays (unat index);
          col' \<leftarrow> store col (unat r) (vals c);
          store arrays (unat index) col' }) arrays = Some arrays'
     \<and> length arrays' = length arrays
     \<and> (\<forall>c\<in>set cs. arrays' ! unat (internalIndex m ! c)
           = (arrays ! unat (internalIndex m ! c))[unat r := vals c])
     \<and> (\<forall>j. j \<notin> (\<lambda>c. unat (internalIndex m ! c)) ` set cs \<longrightarrow> arrays' ! j = arrays ! j)"
  using assms
proof (induction cs arbitrary: arrays)
  case Nil
  then show ?case by simp
next
  case (Cons c cs)
  let ?f = "\<lambda>c arrays. do {
          index \<leftarrow> load (internalIndex m) c;
          col \<leftarrow> load arrays (unat index);
          col' \<leftarrow> store col (unat r) (vals c);
          store arrays (unat index) col' }"
  let ?j = "unat (internalIndex m ! c)"
  let ?arrays = "arrays[?j := (arrays ! ?j)[unat r := vals c]]"
  from Cons.prems(2) have c: "c < length (internalIndex m)" "?j < length arrays"
    "unat r < length (arrays ! ?j)"
    by simp_all
  have step: "?f c arrays = Some ?arrays"
    using c by (simp add: load_def store_def)
  from Cons.prems(1) have d: "distinct (map (\<lambda>c. internalIndex m ! c) cs)"
    and "\<forall>x\<in>set cs. internalIndex m ! x \<noteq> internalIndex m ! c"
    by (auto simp: image_iff)
  then have other: "\<forall>x\<in>set cs. unat (internalIndex m ! x) \<noteq> ?j"
    by (simp add: word_unat_eq_iff)
  then have other': "\<forall>x\<in>set cs. ?j \<noteq> unat (internalIndex m ! x)"
    by metis
  have pre: "\<forall>x\<in>set cs. x < length (internalIndex m)
           \<and> unat (internalIndex m ! x) < length ?arrays
           \<and> unat r < length (?arrays ! unat (internalIndex m ! x))"
    using Cons.prems(2) other other' by auto
  from Cons.IH [OF d pre] obtain arrays' where
    r: "eachOf cs ?f ?arrays = Some arrays'"
    and l: "length arrays' = length ?arrays"
    and cols: "\<forall>x\<in>set cs. arrays' ! unat (internalIndex m ! x)
           = (?arrays ! unat (internalIndex m ! x))[unat r := vals x]"
    and rest: "\<forall>j. j \<notin> (\<lambda>c. unat (internalIndex m ! c)) ` set cs \<longrightarrow> arrays' ! j = ?arrays ! j"
    by blast
  have run: "eachOf (c # cs) ?f arrays = Some arrays'"
    using step r by simp
  have "?j \<notin> (\<lambda>c. unat (internalIndex m ! c)) ` set cs"
    using other' by blast
  with rest have "arrays' ! ?j = ?arrays ! ?j"
    by blast
  with c(2) have here: "arrays' ! ?j = (arrays ! ?j)[unat r := vals c]"
    by simp
  have there: "\<forall>x\<in>set cs. arrays' ! unat (internalIndex m ! x)
           = (arrays ! unat (internalIndex m ! x))[unat r := vals x]"
    using cols other other' by auto
  have outside: "\<forall>j. j \<notin> (\<lambda>c. unat (internalIndex m ! c)) ` set (c # cs)
      \<longrightarrow> arrays' ! j = arrays ! j"
    using rest by simp
  from run l here there outside show ?case
    by (intro exI [of _ arrays']) simp
qed

lemma writeRow_block:
  fixes w :: "('w::len, 'v) World"
  assumes blk: "load (managers w) a = Some m" and ba: "blockAllocated m"
    and r: "unat r < unat (size_arch m)"
  shows "\<exists>m'. writeRow a r vals w = Some (w\<lparr>managers := (managers w)[a := m']\<rparr>)
     \<and> blockAllocated m' \<and> id_arch m' = id_arch m \<and> internalIndex m' = internalIndex m
     \<and> size_arch m' = size_arch m \<and> capacity_arch m' = capacity_arch m
     \<and> (\<forall>c\<in>set (componentIds (id_arch m)).
          componentArrays m' ! unat (internalIndex m ! c)
            = (componentArrays m ! unat (internalIndex m ! c))[unat r := vals c])"
proof -
  note b = blockAllocatedD [OF ba]
  note lay = blockLayoutD [OF b(1)]
  have pre: "\<forall>c\<in>set (componentIds (id_arch m)). c < length (internalIndex m)
           \<and> unat (internalIndex m ! c) < length (componentArrays m)
           \<and> unat r < length (componentArrays m ! unat (internalIndex m ! c))"
    using blockLayout_component [OF b(1)] r by fastforce
  from writeRow_columns [OF lay(2) pre, of vals] obtain arrays where
    run: "eachOf (componentIds (id_arch m))
       (\<lambda>c arrays. do {
          index \<leftarrow> load (internalIndex m) c;
          col \<leftarrow> load arrays (unat index);
          col' \<leftarrow> store col (unat r) (vals c);
          store arrays (unat index) col' }) (componentArrays m) = Some arrays"
    and la: "length arrays = length (componentArrays m)"
    and cols: "\<forall>c\<in>set (componentIds (id_arch m)). arrays ! unat (internalIndex m ! c)
           = (componentArrays m ! unat (internalIndex m ! c))[unat r := vals c]"
    by blast
  let ?m' = "m\<lparr>componentArrays := arrays\<rparr>"
  have w: "writeRow a r vals w = Some (w\<lparr>managers := (managers w)[a := ?m']\<rparr>)"
    using blk run by (simp add: writeRow_def)
  have ba': "blockAllocated ?m'"
  proof (rule blockAllocatedI)
    show "length (internalIndex ?m') = LENGTH('w)" using lay(1) by simp
    show "distinct (map (\<lambda>c. internalIndex ?m' ! c) (componentIds (id_arch ?m')))"
      using lay(2) by simp
    show "unat (size_arch ?m') \<le> unat (capacity_arch ?m')" using b(2) by simp
    show "length (recordIndices ?m') = unat (capacity_arch ?m')" using b(3) by simp
    fix c assume "c \<in> set (componentIds (id_arch ?m'))"
    then have c: "c \<in> set (componentIds (id_arch m))" by simp
    from blockLayout_component [OF b(1) c] b(4) [OF c] cols c la
    show "internalIndex ?m' ! c \<noteq> Unused
           \<and> unat (internalIndex ?m' ! c) < length (componentArrays ?m')
           \<and> length (componentArrays ?m' ! unat (internalIndex ?m' ! c))
               = unat (capacity_arch ?m')"
      by simp
  qed
  from w ba' cols show ?thesis
    by (intro exI [of _ ?m']) simp
qed

lemma insertRows_values:
  fixes w :: "('w::len, 'v) World"
  assumes ok: "tableOk w" and few: "last_rec w + length rows \<le> 65535"
    and al: "newRecords alloc" "reallocIndices alloc"
      "list_all (newColumn alloc) (componentIds (id_arch m))"
    and blk: "load (managers w) a = Some m" and ba: "blockAllocated m"
    and fits: "unat (size_arch m) + length rows \<le> capacityLimit (capacity_arch m)"
  shows "\<exists>w' m'. insertRows ops alloc a rows w = Some (Returns (), w')
     \<and> load (managers w') a = Some m' \<and> blockAllocated m' \<and> tableOk w'
     \<and> last_rec w' \<le> last_rec w + length rows
     \<and> id_arch m' = id_arch m \<and> internalIndex m' = internalIndex m
     \<and> unat (size_arch m') = unat (size_arch m) + length rows
     \<and> capacityLimit (capacity_arch m') = capacityLimit (capacity_arch m)
     \<and> (\<forall>c\<in>set (componentIds (id_arch m)).
          take (unat (size_arch m) + length rows)
               (componentArrays m' ! unat (internalIndex m ! c))
            = take (unat (size_arch m)) (componentArrays m ! unat (internalIndex m ! c))
              @ map (\<lambda>vals. vals c) rows)"
  using assms
proof (induction rows arbitrary: w m)
  case Nil
  then show ?case by simp
next
  case (Cons vals rest)
  let ?s = "unat (size_arch m)"
  from Cons.prems(1,2) have small:
    "freeList w = [] \<and> capacity_rec w \<le> last_rec w \<longrightarrow> capacity_rec w \<le> 65535"
    by (auto simp: tableOk_def)
  have grows: "capacity_arch m \<le> size_arch m \<longrightarrow> unat (capacity_arch m) \<le> 43690"
  proof
    assume "capacity_arch m \<le> size_arch m"
    with blockAllocatedD(2) [OF Cons.prems(7)] have eq: "unat (capacity_arch m) = ?s"
      by (simp add: word_le_nat_alt)
    show "unat (capacity_arch m) \<le> 43690"
    proof (rule ccontr)
      assume "\<not> unat (capacity_arch m) \<le> 43690"
      then have "capacityLimit (capacity_arch m) = unat (capacity_arch m)"
        by (simp add: capacityLimit_large)
      with Cons.prems(8) eq show False by simp
    qed
  qed
  from ReserveRecord_step [OF Cons.prems(1) small Cons.prems(3,4,5,6,7) grows, of ops]
  obtain i w1 m1 where
    rr: "ReserveRecord ops alloc a w = Some (Returns (Rec i), w1)"
    and ok1: "tableOk w1" and last1: "last_rec w1 \<le> last_rec w + 1"
    and blk1: "load (managers w1) a = Some m1" and ba1: "blockAllocated m1"
    and same1: "id_arch m1 = id_arch m" "internalIndex m1 = internalIndex m"
    and size1: "unat (size_arch m1) = ?s + 1"
    and cap1: "capacity_arch m1 = (if capacity_arch m \<le> size_arch m
                             then growCapacity (capacity_arch m) else capacity_arch m)"
    and cols1: "\<forall>c\<in>set (componentIds (id_arch m)).
          take ?s (componentArrays m1 ! unat (internalIndex m ! c))
            = take ?s (componentArrays m ! unat (internalIndex m ! c))"
    and row1: "rowOf (Rec i) w1 = Some (size_arch m)"
    by blast
  have r: "unat (size_arch m) < unat (size_arch m1)"
    using size1 by simp
  from writeRow_block [OF blk1 ba1 r, of vals] obtain m2 where
    wr: "writeRow a (size_arch m) vals w1 = Some (w1\<lparr>managers := (managers w1)[a := m2]\<rparr>)"
    and ba2: "blockAllocated m2"
    and same2: "id_arch m2 = id_arch m1" "internalIndex m2 = internalIndex m1"
      "size_arch m2 = size_arch m1" "capacity_arch m2 = capacity_arch m1"
    and cols2: "\<forall>c\<in>set (componentIds (id_arch m1)).
          componentArrays m2 ! unat (internalIndex m1 ! c)
            = (componentArrays m1 ! unat (internalIndex m1 ! c))[?s := vals c]"
    by blast
  let ?w2 = "w1\<lparr>managers := (managers w1)[a := m2]\<rparr>"
  have a_lt: "a < length (managers w1)"
    using blk1 by (auto simp: load_def split: if_splits)
  have ok2: "tableOk ?w2" using ok1 by (simp add: tableOk_def)
  have few2: "last_rec ?w2 + length rest \<le> 65535"
    using last1 Cons.prems(2) by simp
  have al2: "list_all (newColumn alloc) (componentIds (id_arch m2))"
    using Cons.prems(5) same1 same2 by simp
  have blk2: "load (managers ?w2) a = Some m2"
    using a_lt by (simp add: load_def)
  have limit1: "capacityLimit (capacity_arch m1) = capacityLimit (capacity_arch m)"
    using cap1 grows by (simp add: capacityLimit_small)
  have fits2: "unat (size_arch m2) + length rest \<le> capacityLimit (capacity_arch m2)"
    using Cons.prems(8) size1 same2 limit1 by simp
  from Cons.IH [OF ok2 few2 Cons.prems(3,4) al2 blk2 ba2 fits2]
  obtain w' m' where
    ins: "insertRows ops alloc a rest ?w2 = Some (Returns (), w')"
    and blk': "load (managers w') a = Some m'" and ba': "blockAllocated m'"
    and ok': "tableOk w'" and last': "last_rec w' \<le> last_rec ?w2 + length rest"
    and same': "id_arch m' = id_arch m2" "internalIndex m' = internalIndex m2"
    and size': "unat (size_arch m') = unat (size_arch m2) + length rest"
    and limit': "capacityLimit (capacity_arch m') = capacityLimit (capacity_arch m2)"
    and cols': "\<forall>c\<in>set (componentIds (id_arch m2)).
          take (unat (size_arch m2) + length rest)
               (componentArrays m' ! unat (internalIndex m2 ! c))
            = take (unat (size_arch m2)) (componentArrays m2 ! unat (internalIndex m2 ! c))
              @ map (\<lambda>vals. vals c) rest"
    by blast
  have run: "insertRows ops alloc a (vals # rest) w = Some (Returns (), w')"
    using rr row1 wr ins by (simp del: rowOf.simps)
  have kept: "\<forall>c\<in>set (componentIds (id_arch m)).
          take (?s + length (vals # rest)) (componentArrays m' ! unat (internalIndex m ! c))
            = take ?s (componentArrays m ! unat (internalIndex m ! c))
              @ map (\<lambda>vals. vals c) (vals # rest)"
  proof
    fix c assume c: "c \<in> set (componentIds (id_arch m))"
    let ?j = "unat (internalIndex m ! c)"
    from c same1 have c1: "c \<in> set (componentIds (id_arch m1))" by simp
    from blockAllocatedD(4) [OF ba1 c1] blockAllocatedD(2) [OF ba1] size1 same1
    have len1: "?s < length (componentArrays m1 ! ?j)" by simp
    from cols2 c1 same1 have two: "componentArrays m2 ! ?j = (componentArrays m1 ! ?j)[?s := vals c]"
      by simp
    have "take (?s + 1) (componentArrays m2 ! ?j)
        = take ?s (componentArrays m2 ! ?j) @ [componentArrays m2 ! ?j ! ?s]"
      using len1 two by (simp add: take_Suc_conv_app_nth)
    also have "\<dots> = take ?s (componentArrays m1 ! ?j) @ [vals c]"
      using len1 two by simp
    also have "\<dots> = take ?s (componentArrays m ! ?j) @ [vals c]"
      using cols1 c by simp
    finally have step: "take (?s + 1) (componentArrays m2 ! ?j)
        = take ?s (componentArrays m ! ?j) @ [vals c]" .
    from cols' c same1 same2 size1
    have "take (?s + 1 + length rest) (componentArrays m' ! ?j)
        = take (?s + 1) (componentArrays m2 ! ?j) @ map (\<lambda>vals. vals c) rest"
      by simp
    with step show "take (?s + length (vals # rest)) (componentArrays m' ! ?j)
            = take ?s (componentArrays m ! ?j) @ map (\<lambda>vals. vals c) (vals # rest)"
      by simp
  qed
  have size: "unat (size_arch m') = ?s + length (vals # rest)"
    using size' same2 size1 by simp
  have ids: "id_arch m' = id_arch m" "internalIndex m' = internalIndex m"
    using same' same2 same1 by simp_all
  have limit: "capacityLimit (capacity_arch m') = capacityLimit (capacity_arch m)"
    using limit' same2 limit1 by simp
  have last: "last_rec w' \<le> last_rec w + length (vals # rest)"
    using last' last1 by simp
  show ?case
    apply (rule exI [of _ w'], rule exI [of _ m'])
    apply (intro conjI)
    apply (fact run blk' ba' ok' last ids size limit kept)+
    done
qed

lemma moveElements_overflow:
  assumes "i \<le> length new" and "length new < n" and "n \<le> length orig"
  shows "moveElements i n orig new = None"
  using assms
proof (induction "length new - i" arbitrary: i new)
  case 0
  then have "i = length new" by simp
  with "0.prems" show ?case
    by (subst moveElements.simps) (simp add: load_def store_def)
next
  case (Suc k)
  then have lt: "i < length new" by simp
  have "moveElements (i + 1) n orig (new[i := orig ! i]) = None"
    using Suc.hyps(2) Suc.prems lt by (intro Suc.hyps(1)) simp_all
  with lt Suc.prems show ?case
    by (subst moveElements.simps) (simp add: load_def store_def del: One_nat_def)
qed

lemma insertRows_example:
  "insertRows exampleOps allocOk 0 threeRows emptyBlockWorld = Some (Returns (), threeEntityWorld)"
  by code_simp

lemma insertRows_append:
  "insertRows ops alloc a (xs @ ys) w
    = do {
        (inserted, w') \<leftarrow> insertRows ops alloc a xs w;
        case inserted of
          Throws e \<Rightarrow> Some (Throws e, w')
        | Returns _ \<Rightarrow> insertRows ops alloc a ys w' }"
proof (induction xs arbitrary: w)
  case Nil
  show ?case by simp
next
  case (Cons x xs)
  show ?case
    by (simp add: Cons.IH split: bind_splits outcome.splits)
qed

text \<open>
  Growth while the grown capacity fits into the 16 bits of \<open>Index\<close>, with a slot table
  within the range of \<open>Index\<close> and allocations that succeed.  For a consistent slot
  table and a block that is allocated for its capacity, full (size equal to capacity) and
  of a capacity up to 43690, \<open>ReserveRecord\<close> returns a record and sets the capacity to 2
  for the capacity 0 and to \<open>2 * capacity - capacity div 2\<close> otherwise; the array of
  record indices and the column of every component of the block then have exactly that
  many elements, and their first \<open>size\<close> elements are the elements stored before.
\<close>

lemma growth_step:
  fixes w :: "('w::len, 'v) World"
  assumes ok: "tableOk w" and few: "last_rec w \<le> 65535"
    and al: "newRecords alloc" "reallocIndices alloc"
      "list_all (newColumn alloc) (componentIds (id_arch m))"
    and blk: "load (managers w) a = Some m" and ba: "blockAllocated m"
    and full: "size_arch m = capacity_arch m"
    and fits: "unat (capacity_arch m) \<le> 43690"
  shows "\<exists>i w' m'. ReserveRecord ops alloc a w = Some (Returns (Rec i), w')
          \<and> load (managers w') a = Some m'
          \<and> unat (capacity_arch m')
              = (if capacity_arch m = 0 then 2
                 else unat (capacity_arch m) * 2 - unat (capacity_arch m) div 2)
          \<and> length (recordIndices m') = unat (capacity_arch m')
          \<and> take (unat (size_arch m)) (recordIndices m')
              = take (unat (size_arch m)) (recordIndices m)
          \<and> (\<forall>c\<in>set (componentIds (id_arch m)).
                length (componentArrays m' ! unat (internalIndex m ! c))
                  = unat (capacity_arch m')
                \<and> take (unat (size_arch m)) (componentArrays m' ! unat (internalIndex m ! c))
                    = take (unat (size_arch m))
                        (componentArrays m ! unat (internalIndex m ! c)))"
proof -
  from ok few have small:
    "freeList w = [] \<and> capacity_rec w \<le> last_rec w \<longrightarrow> capacity_rec w \<le> 65535"
    by (auto simp: tableOk_def)
  from fits have grows: "capacity_arch m \<le> size_arch m \<longrightarrow> unat (capacity_arch m) \<le> 43690"
    by simp
  from ReserveRecord_step [OF ok small al blk ba grows, of ops]
  obtain i w' m' where
    rr: "ReserveRecord ops alloc a w = Some (Returns (Rec i), w')"
    and blk': "load (managers w') a = Some m'" and ba': "blockAllocated m'"
    and same: "id_arch m' = id_arch m" "internalIndex m' = internalIndex m"
    and cap: "capacity_arch m' = (if capacity_arch m \<le> size_arch m
                             then growCapacity (capacity_arch m) else capacity_arch m)"
    and take_ri: "take (unat (size_arch m)) (recordIndices m')
         = take (unat (size_arch m)) (recordIndices m)"
    and take_cols: "\<forall>c\<in>set (componentIds (id_arch m)).
          take (unat (size_arch m)) (componentArrays m' ! unat (internalIndex m ! c))
            = take (unat (size_arch m)) (componentArrays m ! unat (internalIndex m ! c))"
    by blast
  from cap full have cap': "capacity_arch m' = growCapacity (capacity_arch m)"
    by simp
  from growCapacity_unat(1) [OF fits] cap'
  have grown: "unat (capacity_arch m')
      = (if capacity_arch m = 0 then 2
         else unat (capacity_arch m) * 2 - unat (capacity_arch m) div 2)"
    by simp
  note b' = blockAllocatedD [OF ba']
  have len_cols: "\<forall>c\<in>set (componentIds (id_arch m)).
      length (componentArrays m' ! unat (internalIndex m ! c)) = unat (capacity_arch m')"
    using b'(4) same by simp
  show ?thesis
    using rr blk' grown b'(3) take_ri len_cols take_cols by blast
qed

text \<open>
  Under the same conditions on the slot table and the allocations, inserting entities
  into a block that is allocated for its capacity, each initialised by its row of
  values, leaves in every column the values stored before the insertions followed by
  the values written, in the order of insertion, as long as the number of rows stays
  within \<open>capacityLimit\<close> of the capacity of the block: no resize on the way has lost any
  of them.  For a block that starts with the capacity 0 the limit is 61446 rows.
\<close>

lemma growth_preserves_rows:
  fixes w :: "('w::len, 'v) World"
  assumes ok: "tableOk w" and few: "last_rec w + length rows \<le> 65535"
    and al: "newRecords alloc" "reallocIndices alloc"
      "list_all (newColumn alloc) (componentIds (id_arch m))"
    and blk: "load (managers w) a = Some m" and ba: "blockAllocated m"
    and fits: "unat (size_arch m) + length rows \<le> capacityLimit (capacity_arch m)"
  shows "\<exists>w' m'. insertRows ops alloc a rows w = Some (Returns (), w')
          \<and> load (managers w') a = Some m'
          \<and> unat (size_arch m') = unat (size_arch m) + length rows
          \<and> (\<forall>c\<in>set (componentIds (id_arch m)).
                take (unat (size_arch m) + length rows)
                     (componentArrays m' ! unat (internalIndex m ! c))
                  = take (unat (size_arch m))
                      (componentArrays m ! unat (internalIndex m ! c))
                    @ map (\<lambda>vals. vals c) rows)"
  using insertRows_values [OF ok few al blk ba fits, of ops] by blast

lemma growth_preserves_rows_example:
  "insertRows exampleOps allocOk 0 threeRows emptyBlockWorld = Some (Returns (), threeEntityWorld)
   \<and> componentArrays (hd (managers threeEntityWorld)) = [[10, 11, 12], [20, 21, 22]]
   \<and> capacity_arch (hd (managers threeEntityWorld)) = 3"
  using insertRows_example by (simp add: threeEntityWorld_def)

text \<open>
  Beyond the limit: when the grown capacity of a full block is truncated to a value
  below its size, \<open>ResizeArray\<close> of the first column moves \<open>size\<close> elements into a
  smaller array, and \<open>ReserveRecord\<close> has no defined result.
\<close>

lemma ReserveRecord_wraps:
  fixes w :: "('w::len, 'v) World"
  assumes ok: "tableOk w" and few: "last_rec w \<le> 65535"
    and al: "newRecords alloc" "list_all (newColumn alloc) (componentIds (id_arch m))"
    and blk: "load (managers w) a = Some m" and ba: "blockAllocated m"
    and full: "size_arch m = capacity_arch m"
    and wraps: "growCapacity (capacity_arch m) < capacity_arch m"
    and comp: "componentIds (id_arch m) \<noteq> []"
  shows "ReserveRecord ops alloc a w = None"
proof -
  from ok few have small:
    "freeList w = [] \<and> capacity_rec w \<le> last_rec w \<longrightarrow> capacity_rec w \<le> 65535"
    by (auto simp: tableOk_def)
  from Reserve_allocated [OF ok small] obtain i w1 where
    res: "Reserve True w = Some (Returns (Rec i), w1)"
    and ms1: "managers w1 = managers w"
    by blast
  note b = blockAllocatedD [OF ba]
  from comp obtain c cs where ids: "componentIds (id_arch m) = c # cs"
    by (cases "componentIds (id_arch m)") auto
  then have c: "c \<in> set (componentIds (id_arch m))"
    by simp
  let ?cap = "growCapacity (capacity_arch m)"
  let ?m0 = "m\<lparr>capacity_arch := ?cap,
               recordIndices := realloc_indices alloc (recordIndices m) (unat ?cap)\<rparr>"
  let ?col = "componentArrays m ! unat (internalIndex m ! c)"
  note l = blockLayout_component [OF b(1) c]
  from b(4) [OF c] full have len: "length ?col = unat (size_arch m)"
    by simp
  from wraps full have less: "unat ?cap < unat (size_arch m)"
    by (simp add: word_less_nat_alt)
  have "moveElements 0 (unat (size_arch m)) ?col (replicate (unat ?cap) (newElement (ops c)))
      = None"
    using less len by (intro moveElements_overflow) simp_all
  then have "ResizeArray (ops c) True ?col (unat ?cap) (unat (size_arch m)) = None"
    by (simp add: ResizeArray_def new_array_def)
  moreover from al(2) c have "newColumn alloc c"
    by (simp add: list_all_iff)
  ultimately have "resizeColumn ops alloc c (Returns (), ?m0) = None"
    using l by (simp add: resizeColumn_def load_def)
  then have "EachComponent (id_arch m) 0 (resizeColumn ops alloc) (Returns (), ?m0) = None"
    by (simp add: EachComponent_eachOf ids)
  then show ?thesis
    unfolding ReserveRecord_def
    using res blk al(1) full by (simp add: ms1)
qed

text \<open>
  The full block of capacity 61446 is reached: in the world in which the block for the
  types \<open>A\<close> and \<open>B\<close> has been created, the insertion of 61446 entities succeeds and
  leaves the block full with size and capacity 61446, and \<open>ReserveRecord\<close> for the next
  entity has no defined result.
\<close>

lemma full_block_reached:
  fixes rows :: "(nat \<Rightarrow> nat) list"
  assumes n: "length rows = 61446"
  shows "\<exists>w m. insertRows exampleOps allocOk 0 rows emptyBlockWorld = Some (Returns (), w)
     \<and> load (managers w) 0 = Some m
     \<and> size_arch m = 61446 \<and> capacity_arch m = 61446
     \<and> ReserveRecord exampleOps allocOk 0 w = None
     \<and> insertRows exampleOps allocOk 0 (rows @ [vals]) emptyBlockWorld = None"
proof -
  let ?m = "\<lparr>id_arch = 3 :: 64 word, recordIndices = [],
               componentArrays = [[], [] :: nat list],
               internalIndex = 0 # 1 # replicate 62 0, capacity_arch = 0, size_arch = 0\<rparr>"
  have ids: "componentIds (3 :: 64 word) = [0, 1]"
    by code_simp
  have ok: "tableOk emptyBlockWorld"
    by (simp add: tableOk_def emptyBlockWorld_def emptyWorld_def)
  have few: "last_rec emptyBlockWorld + length rows \<le> 65535"
    using n by (simp add: emptyBlockWorld_def emptyWorld_def)
  have al: "newRecords allocOk" "reallocIndices allocOk"
    "list_all (newColumn allocOk) (componentIds (id_arch ?m))"
    by (simp_all add: allocOk_def ids)
  have blk: "load (managers emptyBlockWorld) 0 = Some ?m"
    by (simp add: emptyBlockWorld_def emptyWorld_def load_def)
  have ba: "blockAllocated ?m"
    by (simp add: blockAllocated_def blockLayout_def ids Unused_def)
  have fits: "unat (size_arch ?m) + length rows \<le> capacityLimit (capacity_arch ?m)"
    using n by (simp add: capacityLimit_0)
  from insertRows_values [OF ok few al blk ba fits, of exampleOps]
  obtain w m where
    ins: "insertRows exampleOps allocOk 0 rows emptyBlockWorld = Some (Returns (), w)"
    and blk': "load (managers w) 0 = Some m" and ba': "blockAllocated m"
    and ok': "tableOk w" and last: "last_rec w \<le> last_rec emptyBlockWorld + length rows"
    and same: "id_arch m = id_arch ?m"
    and size: "unat (size_arch m) = unat (size_arch ?m) + length rows"
    and limit: "capacityLimit (capacity_arch m) = capacityLimit (capacity_arch ?m)"
    by blast
  from size n have size': "unat (size_arch m) = 61446"
    by simp
  from limit have limit': "capacityLimit (capacity_arch m) = 61446"
    by (simp add: capacityLimit_0)
  from blockAllocatedD(2) [OF ba'] size' have "43690 < unat (capacity_arch m)"
    by simp
  from capacityLimit_large [OF this] limit' have cap': "unat (capacity_arch m) = 61446"
    by simp
  have s: "size_arch m = 61446"
    using size' by (simp add: word_unat_eq_iff)
  have c: "capacity_arch m = 61446"
    using cap' by (simp add: word_unat_eq_iff)
  have few': "last_rec w \<le> 65535"
    using last n by (simp add: emptyBlockWorld_def emptyWorld_def)
  have al': "list_all (newColumn allocOk) (componentIds (id_arch m))"
    using al(3) same by simp
  have full: "size_arch m = capacity_arch m"
    using s c by simp
  have wraps: "growCapacity (capacity_arch m) < capacity_arch m"
    by (simp add: c growCapacity_def)
  have comp: "componentIds (id_arch m) \<noteq> []"
    using same ids by simp
  have rr: "ReserveRecord exampleOps allocOk 0 w = None"
    by (rule ReserveRecord_wraps [OF ok' few' al(1) al' blk' ba' full wraps comp])
  have "insertRows exampleOps allocOk 0 (rows @ [vals]) emptyBlockWorld = None"
    by (simp add: insertRows_append ins rr)
  with ins blk' s c rr show ?thesis
    by blast
qed

text \<open>
  Claim C5.  Growth of a full block is to set the capacity to 1.5 times the old one and
  to preserve the rows stored, for every block and every number of entities inserted;
  the sources document up to 65535 entities.  The capacity of a block is a 16-bit
  \<open>Index\<close>, unlike the capacity of the slot table, which is a \<open>size_t\<close> and grows by the
  same formula.  The capacities that growth from 0 reaches are 2, 3, 5, ..., 40964,
  61446.  In the world with 61446 entities in one block, where the slot table and the
  block are full with capacity 61446, the slot table grows to 92169, but for the block
  \<open>2 * 61446 - 61446 / 2 = 92169\<close> is truncated to the 16-bit value 26633: the new
  capacity is smaller than the size, \<open>realloc\<close> shrinks the array of record indices,
  \<open>ResizeArray\<close> is asked to move 61446 elements into a new array of 26633 elements and
  writes beyond its end.  \<open>ReserveRecord\<close>, and with it \<open>World::CreateEntity<A>()\<close> for the
  61447th entity, has no defined result.  Such a block is reached by insertions alone:
  in the world in which the block for the types \<open>A\<close> and \<open>B\<close> has been created and holds
  no entity, 61446 insertions succeed, each preserving the rows stored, and leave the
  block full with size and capacity 61446, and \<open>ReserveRecord\<close> for the next entity has
  no defined result.
\<close>

theorem growth_wraps_capacity:
  "load (managers fullBlockWorld) 0
     = Some \<lparr>id_arch = 1, recordIndices = map of_nat [0..<61446],
             componentArrays = [replicate 61446 0], internalIndex = replicate 64 0,
             capacity_arch = 61446, size_arch = 61446\<rparr>
   \<and> (\<exists>w1. Reserve True fullBlockWorld = Some (Returns (Rec 61446), w1)
          \<and> capacity_rec w1 = 92169 \<and> length (records w1) = 92169)
   \<and> unat (growCapacity 61446) = 26633
   \<and> ResizeArray (exampleOps 0) True (replicate 61446 0) 26633 61446 = None
   \<and> ReserveRecord exampleOps allocOk 0 fullBlockWorld = None
   \<and> CreateEntity exampleOps allocOk [typeA] fullBlockWorld = None
   \<and> (\<exists>w m. insertRows exampleOps allocOk 0 (replicate 61446 (\<lambda>c. c)) emptyBlockWorld
                  = Some (Returns (), w)
          \<and> load (managers w) 0 = Some m
          \<and> size_arch m = 61446 \<and> capacity_arch m = 61446
          \<and> ReserveRecord exampleOps allocOk 0 w = None)"
proof -
  let ?m = "\<lparr>id_arch = 1 :: 64 word, recordIndices = map of_nat [0..<61446],
             componentArrays = [replicate 61446 (0 :: nat)], internalIndex = replicate 64 0,
             capacity_arch = 61446, size_arch = 61446\<rparr>"
  have blk: "load (managers fullBlockWorld) 0 = Some ?m"
    by (simp add: fullBlockWorld_def load_def)
  have grow: "growCapacity 61446 = 26633"
    by (simp add: growCapacity_def)
  let ?recs = "records fullBlockWorld @ replicate 30723 defaultRecord"
  let ?w1 = "fullBlockWorld\<lparr>capacity_rec := 92169, records := ?recs, last_rec := 61447\<rparr>"
  have len: "length (records fullBlockWorld) = 61446"
    by (simp add: fullBlockWorld_def)
  have "moveRecords 0 61446 (records fullBlockWorld) (replicate 92169 defaultRecord)
      = Some (take (unat (0 :: Index)) (replicate 92169 defaultRecord)
              @ drop (unat (0 :: Index)) (take 61446 (records fullBlockWorld))
              @ drop 61446 (replicate 92169 defaultRecord))"
    using len by (intro moveRecords_eq) simp_all
  then have mv: "moveRecords 0 61446 (records fullBlockWorld) (replicate 92169 defaultRecord)
      = Some ?recs"
    using len by simp
  have res: "Reserve True fullBlockWorld = Some (Returns (Rec 61446), ?w1)"
    using mv len
    by (simp add: Reserve_def new_array_def load_def fullBlockWorld_def)
  have ms1: "managers ?w1 = managers fullBlockWorld"
    by simp
  let ?m0 = "?m\<lparr>capacity_arch := 26633,
                recordIndices := realloc_indices allocOk (recordIndices ?m) (unat (26633 :: Index))\<rparr>"
  have ids: "componentIds (1 :: 64 word) = [0]"
    by code_simp
  have "moveElements 0 61446 (replicate 61446 (0 :: nat))
          (replicate 26633 (newElement (exampleOps 0))) = None"
    by (rule moveElements_overflow) simp_all
  then have resize:
    "ResizeArray (exampleOps 0) True (replicate 61446 (0 :: nat)) 26633 61446 = None"
    by (simp add: ResizeArray_def new_array_def)
  then have "resizeColumn exampleOps allocOk 0 (Returns (), ?m0) = None"
    by (simp add: resizeColumn_def load_def allocOk_def)
  then have "EachComponent (1 :: 64 word) 0 (resizeColumn exampleOps allocOk) (Returns (), ?m0)
      = None"
    by (simp add: EachComponent_eachOf ids)
  then have rr: "ReserveRecord exampleOps allocOk 0 fullBlockWorld = None"
    unfolding ReserveRecord_def
    using res blk by (simp add: ms1 grow allocOk_def)
  have "GetInstance [typeA] fullBlockWorld = Some (0, fullBlockWorld)"
    by (simp add: GetInstance_def Helper_id_def IdBinary_def typeA_def Find_def
        fullBlockWorld_def)
  with rr have ce: "CreateEntity exampleOps allocOk [typeA] fullBlockWorld = None"
    by (simp add: CreateEntity_def)
  have "\<exists>w1. Reserve True fullBlockWorld = Some (Returns (Rec 61446), w1)
          \<and> capacity_rec w1 = 92169 \<and> length (records w1) = 92169"
    using res len by (intro exI [of _ ?w1]) simp
  moreover have "unat (growCapacity 61446) = 26633"
    by (simp add: grow)
  moreover have "\<exists>w m. insertRows exampleOps allocOk 0 (replicate 61446 (\<lambda>c. c)) emptyBlockWorld
                  = Some (Returns (), w)
          \<and> load (managers w) 0 = Some m
          \<and> size_arch m = 61446 \<and> capacity_arch m = 61446
          \<and> ReserveRecord exampleOps allocOk 0 w = None"
    using full_block_reached [where rows = "replicate 61446 (\<lambda>c. c)" and vals = "\<lambda>c. c"]
    by auto
  ultimately show ?thesis
    using blk resize rr ce by (simp only: simp_thms)
qed

section \<open>Destroy in general: inner rows and the last row\<close>

text \<open>
  The two cases of \<open>RemoveRow\<close> for a live entity.  In a row before the last occupied
  one the slot of the entity is released: its generation is incremented and its
  archetype and row are cleared.  In the last occupied row only the size of the block
  changes, and the slot table stays as it was.
\<close>

lemma Destroy_inner_row_releases_slot:
  fixes w :: "('w::len, 'v) World"
  assumes blk: "load (managers w) a = Some m" and lay: "blockLayout m"
    and st: "stored w a h r" and inner: "unat r < unat (size_arch m) - 1"
    and moved: "unat (recordIndices m ! (unat (size_arch m) - 1)) < length (records w)"
    and other: "recordIndices m ! (unat (size_arch m) - 1) \<noteq> recordIndex h"
  shows "\<exists>h' w'. Destroy ops h w = Some (h', w')
     \<and> load (records w') (unat (recordIndex h))
         = Some \<lparr>archetype = InvalidIndex, row = InvalidIndex, version = version_ref h + 1\<rparr>"
proof -
  note d = storedD [OF st blk]
  let ?i = "unat (recordIndex h)"
  let ?k = "unat (recordIndices m ! (unat (size_arch m) - 1))"
  have released: "unat (recordIndices m ! unat r) < length (records w)"
    using d(2,8) by simp
  from RemoveRow_swap [OF blk lay inner released moved, of ops] obtain arrays w1 where
    rel: "Release ?i w = Some w1"
    and rem: "RemoveRow ops a r w
        = Some (w1\<lparr>records := (records w1)[?k := (records w1 ! ?k)\<lparr>row := r\<rparr>],
                 managers := (managers w)
                   [a := m\<lparr>size_arch := size_arch m - 1, componentArrays := arrays,
                          recordIndices := (recordIndices m)
                            [unat r := recordIndices m ! (unat (size_arch m) - 1)]\<rparr>]\<rparr>)"
    unfolding d(8) by blast
  from Release_total [OF d(2)] rel have w1: "length (records w1) = length (records w)"
    "records w1 ! ?i = \<lparr>archetype = InvalidIndex, row = InvalidIndex,
                         version = version (records w ! ?i) + 1\<rparr>"
    by auto
  have ne: "?k \<noteq> ?i"
    using other by (simp add: word_unat_eq_iff)
  have l: "load (records w) ?i = Some (records w ! ?i)"
    using d(2) by (simp add: load_def)
  have "Destroy ops h w = Some (h\<lparr>recordIndex := InvalidIndex\<rparr>,
      w1\<lparr>records := (records w1)[?k := (records w1 ! ?k)\<lparr>row := r\<rparr>],
         managers := (managers w)
           [a := m\<lparr>size_arch := size_arch m - 1, componentArrays := arrays,
                  recordIndices := (recordIndices m)
                    [unat r := recordIndices m ! (unat (size_arch m) - 1)]\<rparr>]\<rparr>)"
    using d(1,3,4,5) rem by (simp add: Destroy_def l)
  moreover have "load ((records w1)[?k := (records w1 ! ?k)\<lparr>row := r\<rparr>]) ?i
      = Some \<lparr>archetype = InvalidIndex, row = InvalidIndex, version = version_ref h + 1\<rparr>"
    using ne w1 d(2,5) by (simp add: load_def)
  ultimately show ?thesis
    by simp
qed

lemma Destroy_last_row_keeps_slot_table:
  fixes w :: "('w::len, 'v) World"
  assumes blk: "load (managers w) a = Some m"
    and st: "stored w a h r" and last: "unat r + 1 = unat (size_arch m)"
  shows "Destroy ops h w
    = Some (h\<lparr>recordIndex := InvalidIndex\<rparr>,
            w\<lparr>managers := (managers w)[a := m\<lparr>size_arch := size_arch m - 1\<rparr>]\<rparr>)"
proof -
  note d = storedD [OF st blk]
  from last have nz: "size_arch m \<noteq> 0"
    by (auto simp: unat_eq_0)
  then have "unat (size_arch m - 1) = unat (size_arch m) - 1"
    by (simp add: unat_minus_one)
  with last have r: "r = size_arch m - 1"
    by (simp add: word_unat_eq_iff)
  have l: "load (records w) (unat (recordIndex h)) = Some (records w ! unat (recordIndex h))"
    using d(2) by (simp add: load_def)
  have "RemoveRow ops a r w
      = Some (w\<lparr>managers := (managers w)[a := m\<lparr>size_arch := size_arch m - 1\<rparr>]\<rparr>)"
    using blk nz r by (simp add: RemoveRow_def)
  then show ?thesis
    using d(1,3,4,5) by (simp add: Destroy_def l)
qed

end
